theory Spec2Isabelle
  imports Main "HOL-Library.Word"
begin

section \<open>Faults\<close>

text \<open>
  Every way in which an archive operation of \<^verbatim>\<open>archive.hpp\<close> can abort is a value of
  \<open>fault\<close>. The first three are the \<^verbatim>\<open>ngcore::Exception\<close>s thrown by the header itself,
  \<open>LengthError\<close> is \<^verbatim>\<open>std::length_error\<close> thrown by \<^verbatim>\<open>resize\<close>, and \<open>OutOfBounds\<close>
  stands for an access outside an array or vector (undefined behaviour in C++, kept
  visible here as a fault). A read from a stream that cannot be served is none of them:
  the streams of the archives do not throw.
\<close>

datatype fault =
    RegistrationFault string
  | ConstructionFault string
  | CastFault
  | LengthError
  | OutOfBounds

section \<open>Binary codec: the buffered writer\<close>

text \<open>
  A byte is a \<open>char\<close>, as in the source; files and strings are \<open>string\<close>s.
  \<^verbatim>\<open>static constexpr size_t BUFFERSIZE = 1024; char buffer[BUFFERSIZE] = {}; size_t ptr = 0;\<close>
\<close>

definition BUFFERSIZE :: nat where
  "BUFFERSIZE = 1024"

record binary_out =
  buffer :: string
  ptr :: nat
  ostream :: string

definition binary_out_init :: "string \<Rightarrow> binary_out" where
  "binary_out_init sink = \<lparr>buffer = replicate BUFFERSIZE (CHR 0x00), ptr = 0, ostream = sink\<rparr>"

text \<open>
  \<^verbatim>\<open>*reinterpret_cast<T*>(&buffer[i]) = x\<close> stores the \<open>sizeof(T)\<close> bytes of \<open>x\<close> at
  \<open>buffer[i .. i + sizeof(T))\<close>; \<^verbatim>\<open>stream->write(&buffer[0], n)\<close> loads
  \<open>buffer[0 .. n)\<close>. Both are checked against the array bounds.
\<close>

definition store_at :: "string \<Rightarrow> nat \<Rightarrow> string \<Rightarrow> fault + string" where
  "store_at buf i x =
     (if i + length x \<le> length buf
      then Inr (take i buf @ x @ drop (i + length x) buf)
      else Inl OutOfBounds)"

definition load_front :: "string \<Rightarrow> nat \<Rightarrow> fault + string" where
  "load_front buf n = (if n \<le> length buf then Inr (take n buf) else Inl OutOfBounds)"

text \<open>
  \<^verbatim>\<open>BinaryOutArchive::Write(T x)\<close>, with \<open>x\<close> given by its object representation, so
  that \<open>length x\<close> is \<open>sizeof(T)\<close>. The comparison \<^verbatim>\<open>ptr > BUFFERSIZE-sizeof(T)\<close> is
  computed in \<open>size_t\<close>: the subtraction wraps modulo \<open>2 ^ 64\<close>.
\<close>

definition Write :: "string \<Rightarrow> binary_out \<Rightarrow> fault + binary_out" where
  "Write x a =
     (if ptr a > (BUFFERSIZE + 2 ^ 64 - length x) mod 2 ^ 64 then
        (case load_front (buffer a) (ptr a) of
           Inl e \<Rightarrow> Inl e
         | Inr w \<Rightarrow>
             (case store_at (buffer a) 0 x of
                Inl e \<Rightarrow> Inl e
              | Inr b \<Rightarrow> Inr (a\<lparr>ostream := ostream a @ w, buffer := b, ptr := length x\<rparr>)))
      else
        (case store_at (buffer a) (ptr a) x of
           Inl e \<Rightarrow> Inl e
         | Inr b \<Rightarrow> Inr (a\<lparr>buffer := b, ptr := ptr a + length x\<rparr>)))"

text \<open>\<^verbatim>\<open>BinaryOutArchive::FlushBuffer\<close>; the destructor calls it as well.\<close>

definition FlushBuffer :: "binary_out \<Rightarrow> fault + binary_out" where
  "FlushBuffer a =
     (if ptr a > 0 then
        (case load_front (buffer a) (ptr a) of
           Inl e \<Rightarrow> Inl e
         | Inr w \<Rightarrow> Inr (a\<lparr>ostream := ostream a @ w, ptr := 0\<rparr>))
      else Inr a)"

text \<open>A sequence of \<open>Write\<close> calls, stopping at the first fault.\<close>

fun Write_all :: "string list \<Rightarrow> binary_out \<Rightarrow> fault + binary_out" where
  "Write_all [] a = Inr a"
| "Write_all (x # xs) a = (case Write x a of Inl e \<Rightarrow> Inl e | Inr a' \<Rightarrow> Write_all xs a')"

subsection \<open>Scalars and their fixed-width encodings\<close>

text \<open>
  The scalar kinds for which \<^verbatim>\<open>BinaryOutArchive\<close> overrides \<^verbatim>\<open>operator &\<close> with a call
  of \<open>Write\<close>. A double is its 64-bit pattern: the binary codec copies the bits and never
  looks at the number. The object representation is little-endian (the layout of the
  platforms the library is built for); \<open>sizeof\<close> is 8, 4, 2, 8, 8, 1, 1.
\<close>

datatype scalar =
    Double_val "64 word"
  | Int_val "32 word"
  | Short_val "16 word"
  | Long_val "64 word"
  | Size_t_val "64 word"
  | UChar_val "8 word"
  | Bool_val bool

fun le_bytes :: "nat \<Rightarrow> nat \<Rightarrow> string" where
  "le_bytes 0 v = []"
| "le_bytes (Suc n) v = char_of (v mod 256) # le_bytes n (v div 256)"

fun le_nat :: "string \<Rightarrow> nat" where
  "le_nat [] = 0"
| "le_nat (b # bs) = of_char b + 256 * le_nat bs"

fun object_repr :: "scalar \<Rightarrow> string" where
  "object_repr (Double_val w) = le_bytes 8 (unat w)"
| "object_repr (Int_val w) = le_bytes 4 (unat w)"
| "object_repr (Short_val w) = le_bytes 2 (unat w)"
| "object_repr (Long_val w) = le_bytes 8 (unat w)"
| "object_repr (Size_t_val w) = le_bytes 8 (unat w)"
| "object_repr (UChar_val w) = le_bytes 1 (unat w)"
| "object_repr (Bool_val b) = le_bytes 1 (if b then 1 else 0)"

text \<open>\<^verbatim>\<open>Archive & operator & (double & d) override { return Write(d); }\<close> and its siblings.\<close>

definition binary_out_scalar :: "scalar \<Rightarrow> binary_out \<Rightarrow> fault + binary_out" where
  "binary_out_scalar x a = Write (object_repr x) a"

fun binary_out_scalars :: "scalar list \<Rightarrow> binary_out \<Rightarrow> fault + binary_out" where
  "binary_out_scalars [] a = Inr a"
| "binary_out_scalars (x # xs) a =
     (case binary_out_scalar x a of Inl e \<Rightarrow> Inl e | Inr a' \<Rightarrow> binary_out_scalars xs a')"

text \<open>The unbuffered writer the buffered one is compared with: each scalar goes to the sink at once.\<close>

definition unbuffered_scalars :: "scalar list \<Rightarrow> string \<Rightarrow> string" where
  "unbuffered_scalars xs sink = sink @ concat (map object_repr xs)"

section \<open>Streams and the two codecs on them\<close>

text \<open>
  A \<^verbatim>\<open>std::istream\<close> as far as the input archives use it: the characters still to be
  read, and whether the stream has left its good state (a read that meets the end of the
  stream or a failed conversion sets \<^verbatim>\<open>failbit\<close>). The exception mask of a stream is
  empty unless the program sets it, and the archives do not: a stream that fails does
  not throw, and every later read on it does nothing.
\<close>

record istream =
  chars :: string
  failed :: bool

definition istream_init :: "string \<Rightarrow> istream" where
  "istream_init cs = \<lparr>chars = cs, failed = False\<rparr>"

text \<open>
  \<^verbatim>\<open>stream->read(s, n)\<close> into a destination that holds \<open>dest\<close>: the next \<open>n\<close> characters,
  or what is left of the stream, the rest of the destination as it was.
\<close>

definition istream_read :: "nat \<Rightarrow> string \<Rightarrow> istream \<Rightarrow> string \<times> istream" where
  "istream_read n dest s =
     (if failed s then (dest, s)
      else if n \<le> length (chars s)
      then (take n (chars s) @ drop n dest, s\<lparr>chars := drop n (chars s)\<rparr>)
      else (chars s @ drop (length (chars s)) dest, s\<lparr>chars := [], failed := True\<rparr>))"

text \<open>\<^verbatim>\<open>stream->get(ch)\<close>, where the archives drop the character.\<close>

definition istream_get_char :: "istream \<Rightarrow> istream" where
  "istream_get_char s =
     (if failed s then s
      else (case chars s of
              [] \<Rightarrow> s\<lparr>failed := True\<rparr>
            | c # cs \<Rightarrow> s\<lparr>chars := cs\<rparr>))"

text \<open>
  \<^verbatim>\<open>stream->get(s, count, '\0')\<close> into a destination that holds \<open>dest\<close>: at most
  \<open>count - 1\<close> characters up to, and without, the first NUL; then a NUL is stored behind
  them if \<open>count > 0\<close>; \<^verbatim>\<open>failbit\<close> if no character was extracted. The NUL behind
  \<open>length dest\<close> characters is the terminator a \<^verbatim>\<open>std::string\<close> has anyway.
\<close>

definition istream_get :: "int \<Rightarrow> string \<Rightarrow> istream \<Rightarrow> string \<times> istream" where
  "istream_get count dest s =
     (let got = (if failed s then []
                 else takeWhile (\<lambda>c. c \<noteq> CHR 0x00) (take (nat (count - 1)) (chars s)));
          stored = (if count > 0 then take (length dest) (got @ [CHR 0x00]) else got)
      in (stored @ drop (length stored) dest,
          s\<lparr>chars := drop (length got) (chars s), failed := (failed s \<or> got = [])\<rparr>))"

subsection \<open>Decimal numbers\<close>

text \<open>\<^verbatim>\<open>operator <<\<close> for the integer types: decimal digits, with a minus sign if negative.\<close>

fun digits_of :: "nat \<Rightarrow> string" where
  "digits_of n =
     (if n < 10 then [char_of (48 + n)]
      else digits_of (n div 10) @ [char_of (48 + n mod 10)])"

declare digits_of.simps [simp del]

definition show_int :: "int \<Rightarrow> string" where
  "show_int i = (if i < 0 then CHR ''-'' # digits_of (nat (- i)) else digits_of (nat i))"

definition isspace :: "char \<Rightarrow> bool" where
  "isspace c \<longleftrightarrow> (of_char c :: nat) \<in> {9, 10, 11, 12, 13, 32}"

definition isdigit :: "char \<Rightarrow> bool" where
  "isdigit c \<longleftrightarrow> 48 \<le> (of_char c :: nat) \<and> (of_char c :: nat) \<le> 57"

definition dec_value :: "string \<Rightarrow> nat" where
  "dec_value ds = foldl (\<lambda>a c. 10 * a + (of_char c - 48)) 0 ds"

text \<open>
  \<^verbatim>\<open>operator >>\<close> for a signed integer type with the range \<open>lo .. hi\<close>, into a variable
  that holds \<open>old\<close>: nothing on a stream that has failed; else white space is skipped; at
  the end of the stream the stream fails and the variable is left; else a sign and the
  digits are taken; without a digit the stream fails and 0 is stored; a value outside the
  range fails the stream and stores the nearest bound.
\<close>

definition extract_signed :: "int \<Rightarrow> int \<Rightarrow> int \<Rightarrow> istream \<Rightarrow> int \<times> istream" where
  "extract_signed lo hi old s =
     (if failed s then (old, s)
      else (case dropWhile isspace (chars s) of
              [] \<Rightarrow> (old, s\<lparr>chars := [], failed := True\<rparr>)
            | c # cs \<Rightarrow>
                (let cs1 = (if c = CHR ''-'' \<or> c = CHR ''+'' then cs else c # cs);
                     ds = takeWhile isdigit cs1;
                     rest = dropWhile isdigit cs1;
                     v = (if c = CHR ''-'' then - int (dec_value ds) else int (dec_value ds))
                 in if ds = [] then (0, s\<lparr>chars := rest, failed := True\<rparr>)
                    else if v < lo then (lo, s\<lparr>chars := rest, failed := True\<rparr>)
                    else if hi < v then (hi, s\<lparr>chars := rest, failed := True\<rparr>)
                    else (v, s\<lparr>chars := rest\<rparr>))))"

text \<open>
  The same for \<^verbatim>\<open>size_t\<close>: a negative number is taken modulo \<open>2 ^ 64\<close>, as
  \<^verbatim>\<open>strtoull\<close> does.
\<close>

definition extract_size_t :: "nat \<Rightarrow> istream \<Rightarrow> nat \<times> istream" where
  "extract_size_t old s =
     (if failed s then (old, s)
      else (case dropWhile isspace (chars s) of
              [] \<Rightarrow> (old, s\<lparr>chars := [], failed := True\<rparr>)
            | c # cs \<Rightarrow>
                (let cs1 = (if c = CHR ''-'' \<or> c = CHR ''+'' then cs else c # cs);
                     ds = takeWhile isdigit cs1;
                     rest = dropWhile isdigit cs1;
                     v = dec_value ds
                 in if ds = [] then (0, s\<lparr>chars := rest, failed := True\<rparr>)
                    else if 2 ^ 64 \<le> v then (2 ^ 64 - 1, s\<lparr>chars := rest, failed := True\<rparr>)
                    else (if c = CHR ''-'' then (2 ^ 64 - v) mod 2 ^ 64 else v,
                          s\<lparr>chars := rest\<rparr>))))"

text \<open>\<^verbatim>\<open>char c; *stream >> c;\<close>: white space is skipped, then one character is taken.\<close>

definition extract_char :: "char \<Rightarrow> istream \<Rightarrow> char \<times> istream" where
  "extract_char old s =
     (if failed s then (old, s)
      else (case dropWhile isspace (chars s) of
              [] \<Rightarrow> (old, s\<lparr>chars := [], failed := True\<rparr>)
            | c # cs \<Rightarrow> (c, s\<lparr>chars := cs\<rparr>)))"

subsection \<open>Strings\<close>

text \<open>
  \<^verbatim>\<open>str.resize(n)\<close> with \<open>n\<close> of type \<^verbatim>\<open>size_t\<close>: beyond \<^verbatim>\<open>max_size()\<close> it throws
  \<^verbatim>\<open>std::length_error\<close>, else the string is cut or filled with NUL. An \<^verbatim>\<open>int\<close> passed
  for \<open>n\<close> is converted modulo \<open>2 ^ 64\<close>. \<^verbatim>\<open>max_size()\<close> is a constant of the standard
  library and a parameter here.
\<close>

definition size_t_of_int :: "int \<Rightarrow> nat" where
  "size_t_of_int i = nat (i mod 2 ^ 64)"

definition string_resize :: "nat \<Rightarrow> nat \<Rightarrow> string \<Rightarrow> fault + string" where
  "string_resize max_size n str =
     (if n > max_size then Inl LengthError
      else Inr (take n str @ replicate (n - length str) (CHR 0x00)))"

subsection \<open>Binary codec: strings, and the reader\<close>

text \<open>
  \<^verbatim>\<open>BinaryOutArchive::operator & (std::string & str)\<close>:
  \<^verbatim>\<open>int len = str.length(); (*this) & len; FlushBuffer(); if(len) stream->write (&str[0], len);\<close>
\<close>

definition binary_out_string :: "string \<Rightarrow> binary_out \<Rightarrow> fault + binary_out" where
  "binary_out_string str a =
     (let len = (of_nat (length str) :: 32 word) in
      case binary_out_scalar (Int_val len) a of
        Inl e \<Rightarrow> Inl e
      | Inr a1 \<Rightarrow>
          (case FlushBuffer a1 of
             Inl e \<Rightarrow> Inl e
           | Inr a2 \<Rightarrow>
               if len \<noteq> 0 then Inr (a2\<lparr>ostream := ostream a2 @ take (nat (sint len)) str\<rparr>)
               else Inr a2))"

text \<open>
  \<^verbatim>\<open>BinaryInArchive::Read(T& val)\<close>:
  \<^verbatim>\<open>stream->read(reinterpret_cast<char*>(&val), sizeof(T))\<close>, for a variable that holds
  \<open>val\<close>. A \<^verbatim>\<open>bool\<close> read from a byte is true unless the byte is 0.
\<close>

definition Read_word :: "nat \<Rightarrow> 'a::len word \<Rightarrow> istream \<Rightarrow> 'a word \<times> istream" where
  "Read_word sz val s =
     (case istream_read sz (le_bytes sz (unat val)) s of (bs, s') \<Rightarrow> (of_nat (le_nat bs), s'))"

fun Read :: "scalar \<Rightarrow> istream \<Rightarrow> scalar \<times> istream" where
  "Read (Double_val w) s = (case Read_word 8 w s of (w', s') \<Rightarrow> (Double_val w', s'))"
| "Read (Int_val w) s = (case Read_word 4 w s of (w', s') \<Rightarrow> (Int_val w', s'))"
| "Read (Short_val w) s = (case Read_word 2 w s of (w', s') \<Rightarrow> (Short_val w', s'))"
| "Read (Long_val w) s = (case Read_word 8 w s of (w', s') \<Rightarrow> (Long_val w', s'))"
| "Read (Size_t_val w) s = (case Read_word 8 w s of (w', s') \<Rightarrow> (Size_t_val w', s'))"
| "Read (UChar_val w) s = (case Read_word 1 w s of (w', s') \<Rightarrow> (UChar_val w', s'))"
| "Read (Bool_val b) s =
     (case istream_read 1 (object_repr (Bool_val b)) s of
        (bs, s') \<Rightarrow> (Bool_val (le_nat bs \<noteq> 0), s'))"

text \<open>Two scalars of the same kind: the reader is given a variable of the type that was written.\<close>

fun same_kind :: "scalar \<Rightarrow> scalar \<Rightarrow> bool" where
  "same_kind (Double_val _) (Double_val _) = True"
| "same_kind (Int_val _) (Int_val _) = True"
| "same_kind (Short_val _) (Short_val _) = True"
| "same_kind (Long_val _) (Long_val _) = True"
| "same_kind (Size_t_val _) (Size_t_val _) = True"
| "same_kind (UChar_val _) (UChar_val _) = True"
| "same_kind (Bool_val _) (Bool_val _) = True"
| "same_kind _ _ = False"

text \<open>
  \<^verbatim>\<open>BinaryInArchive::operator & (std::string & str)\<close>:
  \<^verbatim>\<open>int len; (*this) & len; str.resize(len); if(len) stream->read(&str[0], len);\<close>
  \<open>len0\<close> is what the uninitialised \<open>len\<close> happens to hold.
\<close>

definition binary_in_string ::
  "nat \<Rightarrow> 32 word \<Rightarrow> string \<Rightarrow> istream \<Rightarrow> (fault + string) \<times> istream" where
  "binary_in_string max_size len0 str s =
     (case Read_word 4 len0 s of
        (len, s1) \<Rightarrow>
          (case string_resize max_size (size_t_of_int (sint len)) str of
             Inl e \<Rightarrow> (Inl e, s1)
           | Inr str1 \<Rightarrow>
               if len \<noteq> 0
               then (case istream_read (nat (sint len)) str1 s1 of
                       (str2, s2) \<Rightarrow> (Inr str2, s2))
               else (Inr str1, s1)))"

subsection \<open>Text codec\<close>

text \<open>
  \<^verbatim>\<open>TextOutArchive\<close>: \<^verbatim>\<open>*stream << i << '\n'\<close> for the integer types (an
  \<^verbatim>\<open>unsigned char\<close> as \<^verbatim>\<open>int(i)\<close>), \<open>t\<close> or \<open>f\<close> for a \<^verbatim>\<open>bool\<close>. The stream is the
  text written so far. The operator for \<^verbatim>\<open>double\<close> formats a floating-point number
  with the precision of the stream and has no counterpart here.
\<close>

definition text_out_int :: "32 word \<Rightarrow> string \<Rightarrow> string" where
  "text_out_int i os = os @ show_int (sint i) @ [CHR 0x0A]"

definition text_out_short :: "16 word \<Rightarrow> string \<Rightarrow> string" where
  "text_out_short i os = os @ show_int (sint i) @ [CHR 0x0A]"

definition text_out_long :: "64 word \<Rightarrow> string \<Rightarrow> string" where
  "text_out_long i os = os @ show_int (sint i) @ [CHR 0x0A]"

definition text_out_size_t :: "64 word \<Rightarrow> string \<Rightarrow> string" where
  "text_out_size_t i os = os @ show_int (uint i) @ [CHR 0x0A]"

definition text_out_uchar :: "8 word \<Rightarrow> string \<Rightarrow> string" where
  "text_out_uchar i os = os @ show_int (uint i) @ [CHR 0x0A]"

definition text_out_bool :: "bool \<Rightarrow> string \<Rightarrow> string" where
  "text_out_bool b os = os @ [if b then CHR ''t'' else CHR ''f'', CHR 0x0A]"

text \<open>
  \<^verbatim>\<open>TextOutArchive::operator & (std::string & str)\<close>:
  \<^verbatim>\<open>int len = str.length(); *stream << len << '\n'; if(len) { stream->write(&str[0], len); *stream << '\n'; }\<close>
\<close>

definition text_out_string :: "string \<Rightarrow> string \<Rightarrow> string" where
  "text_out_string str os =
     (let len = (of_nat (length str) :: 32 word);
          os1 = os @ show_int (sint len) @ [CHR 0x0A]
      in if len \<noteq> 0 then os1 @ take (nat (sint len)) str @ [CHR 0x0A] else os1)"

text \<open>
  \<^verbatim>\<open>TextInArchive\<close>: \<^verbatim>\<open>*stream >> i\<close>; for an \<^verbatim>\<open>unsigned char\<close>
  \<^verbatim>\<open>int _i; *stream >> _i; i = _i;\<close>; for a \<^verbatim>\<open>bool\<close>
  \<^verbatim>\<open>char c; *stream >> c; b = (c=='t');\<close>. An uninitialised local variable holds
  what the extra argument says.
\<close>

definition text_in_int :: "32 word \<Rightarrow> istream \<Rightarrow> 32 word \<times> istream" where
  "text_in_int i s =
     (case extract_signed (- (2 ^ 31)) (2 ^ 31 - 1) (sint i) s of (v, s') \<Rightarrow> (of_int v, s'))"

definition text_in_short :: "16 word \<Rightarrow> istream \<Rightarrow> 16 word \<times> istream" where
  "text_in_short i s =
     (case extract_signed (- (2 ^ 15)) (2 ^ 15 - 1) (sint i) s of (v, s') \<Rightarrow> (of_int v, s'))"

definition text_in_long :: "64 word \<Rightarrow> istream \<Rightarrow> 64 word \<times> istream" where
  "text_in_long i s =
     (case extract_signed (- (2 ^ 63)) (2 ^ 63 - 1) (sint i) s of (v, s') \<Rightarrow> (of_int v, s'))"

definition text_in_size_t :: "64 word \<Rightarrow> istream \<Rightarrow> 64 word \<times> istream" where
  "text_in_size_t i s =
     (case extract_size_t (unat i) s of (v, s') \<Rightarrow> (of_nat v, s'))"

definition text_in_uchar :: "32 word \<Rightarrow> istream \<Rightarrow> 8 word \<times> istream" where
  "text_in_uchar i0 s =
     (case extract_signed (- (2 ^ 31)) (2 ^ 31 - 1) (sint i0) s of (v, s') \<Rightarrow> (of_int v, s'))"

definition text_in_bool :: "char \<Rightarrow> istream \<Rightarrow> bool \<times> istream" where
  "text_in_bool c0 s = (case extract_char c0 s of (c, s') \<Rightarrow> (c = CHR ''t'', s'))"

text \<open>
  \<^verbatim>\<open>TextInArchive::operator & (std::string & str)\<close>:
  \<^verbatim>\<open>int len; *stream >> len; char ch; stream->get(ch); str.resize(len); if(len) stream->get(&str[0], len+1, '\0');\<close>
  The \<open>len+1\<close> is computed in \<^verbatim>\<open>int\<close>.
\<close>

definition text_in_string ::
  "nat \<Rightarrow> 32 word \<Rightarrow> string \<Rightarrow> istream \<Rightarrow> (fault + string) \<times> istream" where
  "text_in_string max_size len0 str s =
     (case text_in_int len0 s of
        (len, s1) \<Rightarrow>
          (let s2 = istream_get_char s1 in
           case string_resize max_size (size_t_of_int (sint len)) str of
             Inl e \<Rightarrow> (Inl e, s2)
           | Inr str1 \<Rightarrow>
               if len \<noteq> 0
               then (case istream_get (sint (len + 1)) str1 s2 of
                       (str2, s3) \<Rightarrow> (Inr str2, s3))
               else (Inr str1, s2)))"

section \<open>The codec-independent archive\<close>

text \<open>
  The class \<^verbatim>\<open>Archive\<close> leaves the primitive kinds to its codecs (pure virtual
  \<^verbatim>\<open>operator &\<close>) and builds pointers and containers on them. Its stream is modelled as
  the sequence of primitive values written or still to be read. An \<^verbatim>\<open>int\<close> on the
  stream, and each of the two slot counters, is a mathematical integer: a counter is
  incremented once per object archived for the first time, and its overflow after
  \<open>2 ^ 31\<close> objects, undefined behaviour in C++, is outside the model.
\<close>

datatype item = I_int int | I_size nat | I_bool bool | I_string string

type_synonym addr = nat

definition nullptr :: addr where
  "nullptr = 0"

text \<open>A type is identified by its demangled name, \<^verbatim>\<open>Demangle(typeid(T).name())\<close>.\<close>

type_synonym tname = string

text \<open>
  A \<^verbatim>\<open>std::shared_ptr\<close>: the control block through which it owns, if it has one, and
  the stored pointer returned by \<^verbatim>\<open>get()\<close>. Control blocks are numbered in the order
  in which they are created. Handles that have the same control block share one
  ownership; two control blocks made for the same object are two independent owners of
  it, and each of them deletes it. \<^verbatim>\<open>ptr = nullptr\<close> leaves a handle without a control
  block. The aliasing constructor keeps the control block and replaces the stored
  pointer; \<^verbatim>\<open>static_pointer_cast\<close> to and from \<^verbatim>\<open>void\<close> changes neither.
\<close>

record shared_ptr =
  sp_owner :: "nat option"
  sp_get :: addr

definition null_shared_ptr :: shared_ptr where
  "null_shared_ptr = \<lparr>sp_owner = None, sp_get = nullptr\<rparr>"

definition aliasing :: "shared_ptr \<Rightarrow> addr \<Rightarrow> shared_ptr" where
  "aliasing r q = \<lparr>sp_owner = sp_owner r, sp_get = q\<rparr>"

text \<open>
  The members of \<^verbatim>\<open>Archive\<close>, with the stream, and with the memory of the program
  outside the archive: \<open>heap\<close>, where reading allocates the objects it reconstructs, and
  \<open>control_blocks\<close>, the control blocks created so far, each given by the object it
  manages. The version map, the logger and the flag of the Python delegation take no
  part in the operators below and are left out.
\<close>

record 'h archive =
  is_output :: bool
  shared_ptr_count :: int
  ptr_count :: int
  shared_ptr2nr :: "addr \<rightharpoonup> int"
  ptr2nr :: "addr \<rightharpoonup> int"
  nr2shared_ptr :: "shared_ptr list"
  nr2ptr :: "addr list"
  stream :: "item list"
  heap :: 'h
  control_blocks :: "addr list"

text \<open>\<^verbatim>\<open>Archive (bool ais_output)\<close>: counters 0, tables empty.\<close>

definition archive_init :: "bool \<Rightarrow> item list \<Rightarrow> 'h \<Rightarrow> 'h archive" where
  "archive_init out s h =
     \<lparr>is_output = out, shared_ptr_count = 0, ptr_count = 0,
      shared_ptr2nr = Map.empty, ptr2nr = Map.empty,
      nr2shared_ptr = [], nr2ptr = [], stream = s, heap = h, control_blocks = []\<rparr>"

text \<open>
  An operation on the archive returns its value or the fault it was aborted with, and
  the archive as it is left: an exception does not undo what was done before it.
\<close>

type_synonym ('a, 'h) op = "'h archive \<Rightarrow> (fault + 'a) \<times> 'h archive"

definition ret :: "'a \<Rightarrow> ('a, 'h) op" where
  "ret x a = (Inr x, a)"

definition throw :: "fault \<Rightarrow> ('a, 'h) op" where
  "throw e a = (Inl e, a)"

definition bnd :: "('a, 'h) op \<Rightarrow> ('a \<Rightarrow> ('b, 'h) op) \<Rightarrow> ('b, 'h) op" where
  "bnd m f a = (case m a of (Inl e, a') \<Rightarrow> (Inl e, a') | (Inr x, a') \<Rightarrow> f x a')"

definition lift :: "fault + 'a \<Rightarrow> ('a, 'h) op" where
  "lift r a = (r, a)"

text \<open>
  \<^verbatim>\<open>std::shared_ptr<T>(p)\<close>: a new control block that manages \<open>p\<close>, and the handle
  that has it.
\<close>

definition make_shared_ptr :: "addr \<Rightarrow> (shared_ptr, 'h) op" where
  "make_shared_ptr p a =
     (Inr \<lparr>sp_owner = Some (length (control_blocks a)), sp_get = p\<rparr>,
      a\<lparr>control_blocks := control_blocks a @ [p]\<rparr>)"

subsection \<open>Primitive kinds\<close>

text \<open>
  \<^verbatim>\<open>operator & (int & i)\<close> and its siblings: writing appends the value and leaves the
  variable as it is, reading takes the next value from the stream. The argument is the
  content of the variable before the call. \<^verbatim>\<open>operator <<\<close> copies its argument and calls
  \<^verbatim>\<open>operator &\<close> on the copy.

  Neither codec raises an exception when a read cannot be served: \<^verbatim>\<open>stream->read\<close>
  and \<^verbatim>\<open>*stream >> i\<close> set \<^verbatim>\<open>failbit\<close>, the operator returns, and every later read
  on the stream does nothing. So a read that finds the stream at its end, or finds a
  value of another kind, leaves the variable as it was and returns normally, and the
  stream yields nothing from then on: it is the empty sequence afterwards. (What a
  failed conversion stores into the variable instead is particular to the codec, see
  \<open>extract_signed\<close>.)
\<close>

definition and_int :: "int \<Rightarrow> (int, 'h) op" where
  "and_int i a =
     (if is_output a then (Inr i, a\<lparr>stream := stream a @ [I_int i]\<rparr>)
      else (case stream a of
              I_int j # rest \<Rightarrow> (Inr j, a\<lparr>stream := rest\<rparr>)
            | _ \<Rightarrow> (Inr i, a\<lparr>stream := []\<rparr>)))"

definition and_size :: "nat \<Rightarrow> (nat, 'h) op" where
  "and_size n a =
     (if is_output a then (Inr n, a\<lparr>stream := stream a @ [I_size n]\<rparr>)
      else (case stream a of
              I_size m # rest \<Rightarrow> (Inr m, a\<lparr>stream := rest\<rparr>)
            | _ \<Rightarrow> (Inr n, a\<lparr>stream := []\<rparr>)))"

definition and_bool :: "bool \<Rightarrow> (bool, 'h) op" where
  "and_bool b a =
     (if is_output a then (Inr b, a\<lparr>stream := stream a @ [I_bool b]\<rparr>)
      else (case stream a of
              I_bool c # rest \<Rightarrow> (Inr c, a\<lparr>stream := rest\<rparr>)
            | _ \<Rightarrow> (Inr b, a\<lparr>stream := []\<rparr>)))"

text \<open>
  A string is read as its length and its characters (\<open>binary_in_string\<close>,
  \<open>text_in_string\<close>): \<^verbatim>\<open>int len; (*this) & len; str.resize(len);\<close>. When the read of
  the length is not served, \<open>len\<close> is what the uninitialised variable holds, \<open>len0\<close>, and
  the string is resized to it, which throws \<^verbatim>\<open>std::length_error\<close> beyond
  \<open>max_size\<close>.
\<close>

definition and_string :: "nat \<Rightarrow> int \<Rightarrow> string \<Rightarrow> (string, 'h) op" where
  "and_string max_size len0 str a =
     (if is_output a then (Inr str, a\<lparr>stream := stream a @ [I_string str]\<rparr>)
      else (case stream a of
              I_string t # rest \<Rightarrow> (Inr t, a\<lparr>stream := rest\<rparr>)
            | _ \<Rightarrow> (string_resize max_size (size_t_of_int len0) str, a\<lparr>stream := []\<rparr>)))"

subsection \<open>The program around the archive\<close>

text \<open>
  \<^verbatim>\<open>detail::ClassArchiveInfo\<close>: the three closures that \<^verbatim>\<open>RegisterClassForArchive\<close>
  stores for a class. Each takes the \<^verbatim>\<open>type_info\<close> of the static type; the casts are
  pointer adjustments of C++ and throw when no declared base resolves. They are taken as
  they are registered.
\<close>

record 'h ClassArchiveInfo =
  creator :: "tname \<Rightarrow> 'h \<Rightarrow> (fault + addr) \<times> 'h"
  upcaster :: "tname \<Rightarrow> addr \<Rightarrow> fault + addr"
  downcaster :: "tname \<Rightarrow> addr \<Rightarrow> fault + addr"

text \<open>
  What the templates are instantiated with and what the process holds: the type
  register, the runtime type \<^verbatim>\<open>typeid(*p)\<close> of the object at an address,
  \<^verbatim>\<open>std::is_constructible<T>::value\<close>, \<^verbatim>\<open>new T\<close>, and \<^verbatim>\<open>(*this) & (*p)\<close>, the archiving of
  the object at \<open>p\<close> seen with static type \<open>T\<close> (for a class with \<^verbatim>\<open>DoArchive\<close>, that
  member function). The reading branches declare \<^verbatim>\<open>int nr;\<close>,
  \<^verbatim>\<open>bool neededDowncast;\<close> and \<^verbatim>\<open>bool downcasted;\<close> without a value, as the
  string readers do with \<^verbatim>\<open>int len;\<close>: \<open>uninit_int\<close> and \<open>uninit_bool\<close> are what
  such a variable holds when no read fills it. \<open>string_max_size\<close> is
  \<^verbatim>\<open>std::string::max_size()\<close>.
\<close>

record 'h program =
  type_register :: "tname \<rightharpoonup> 'h ClassArchiveInfo"
  typeid_of :: "addr \<Rightarrow> tname"
  is_constructible :: "tname \<Rightarrow> bool"
  new_object :: "tname \<Rightarrow> 'h \<Rightarrow> addr \<times> 'h"
  archive_object :: "tname \<Rightarrow> addr \<Rightarrow> (unit, 'h) op"
  uninit_int :: int
  uninit_bool :: bool
  string_max_size :: nat

text \<open>
  Modelled from the spec: the bodies of \<^verbatim>\<open>Archive::IsRegistered\<close> and
  \<^verbatim>\<open>Archive::GetArchiveRegister\<close> are not in the header (it only declares them). The
  registry is the process-wide table keyed by the stable type name; referencing a type
  that was never registered is a registration fault.
\<close>

definition IsRegistered :: "'h program \<Rightarrow> tname \<Rightarrow> bool" where
  "IsRegistered P classname \<longleftrightarrow> type_register P classname \<noteq> None"

definition GetArchiveRegister :: "'h program \<Rightarrow> tname \<Rightarrow> ('h ClassArchiveInfo, 'h) op" where
  "GetArchiveRegister P classname =
     (case type_register P classname of
        None \<Rightarrow> throw (RegistrationFault classname)
      | Some info \<Rightarrow> ret info)"

text \<open>\<^verbatim>\<open>detail::constructIfPossible<T>()\<close>: \<^verbatim>\<open>new T\<close> if \<open>T\<close> is default constructible, else throw.\<close>

definition constructIfPossible :: "'h program \<Rightarrow> tname \<Rightarrow> (addr, 'h) op" where
  "constructIfPossible P T a =
     (if is_constructible P T
      then (case new_object P T (heap a) of (p, h) \<Rightarrow> (Inr p, a\<lparr>heap := h\<rparr>))
      else (Inl (ConstructionFault T), a))"

definition create :: "'h ClassArchiveInfo \<Rightarrow> tname \<Rightarrow> (addr, 'h) op" where
  "create info T a = (case creator info T (heap a) of (r, h) \<Rightarrow> (r, a\<lparr>heap := h\<rparr>))"

text \<open>
  \<^verbatim>\<open>nr2ptr[nr]\<close> and \<^verbatim>\<open>nr2shared_ptr[nr]\<close>: \<^verbatim>\<open>std::vector::operator[]\<close> with an
  \<^verbatim>\<open>int\<close> index, whose element is read; outside the vector the access is a fault.
\<close>

definition nr2ptr_at :: "int \<Rightarrow> (addr, 'h) op" where
  "nr2ptr_at nr a =
     (if 0 \<le> nr \<and> nat nr < length (nr2ptr a) then (Inr (nr2ptr a ! nat nr), a)
      else (Inl OutOfBounds, a))"

definition nr2shared_ptr_at :: "int \<Rightarrow> (shared_ptr, 'h) op" where
  "nr2shared_ptr_at nr a =
     (if 0 \<le> nr \<and> nat nr < length (nr2shared_ptr a) then (Inr (nr2shared_ptr a ! nat nr), a)
      else (Inl OutOfBounds, a))"

definition nr2ptr_push_back :: "addr \<Rightarrow> (unit, 'h) op" where
  "nr2ptr_push_back p a = (Inr (), a\<lparr>nr2ptr := nr2ptr a @ [p]\<rparr>)"

definition nr2shared_ptr_push_back :: "shared_ptr \<Rightarrow> (unit, 'h) op" where
  "nr2shared_ptr_push_back sp a = (Inr (), a\<lparr>nr2shared_ptr := nr2shared_ptr a @ [sp]\<rparr>)"

subsection \<open>Raw pointers\<close>

text \<open>
  The canonical address \<open>reg_ptr\<close> of a non-null pointer \<open>p\<close> of static type \<open>T\<close>: \<open>p\<close>
  itself when the runtime type is \<open>T\<close>, else the result of the registered downcaster of
  the runtime type, and the exception when that type is not registered. The pointer and
  the shared pointer operator compute it with the same lines.
\<close>

definition canonical_address :: "'h program \<Rightarrow> tname \<Rightarrow> addr \<Rightarrow> fault + addr" where
  "canonical_address P T p =
     (if T \<noteq> typeid_of P p then
        (if \<not> IsRegistered P (typeid_of P p)
         then Inl (RegistrationFault (typeid_of P p))
         else (case type_register P (typeid_of P p) of
                 None \<Rightarrow> Inl (RegistrationFault (typeid_of P p))
               | Some info \<Rightarrow> downcaster info T p))
      else Inr p)"

text \<open>\<^verbatim>\<open>ptr2nr[reg_ptr] = ptr_count++\<close> and \<^verbatim>\<open>shared_ptr2nr[reg_ptr] = shared_ptr_count++\<close>.\<close>

definition ptr2nr_assign :: "addr \<Rightarrow> (unit, 'h) op" where
  "ptr2nr_assign reg_ptr a =
     (Inr (), a\<lparr>ptr2nr := (ptr2nr a)(reg_ptr \<mapsto> ptr_count a), ptr_count := ptr_count a + 1\<rparr>)"

definition shared_ptr2nr_assign :: "addr \<Rightarrow> (unit, 'h) op" where
  "shared_ptr2nr_assign reg_ptr a =
     (Inr (), a\<lparr>shared_ptr2nr := (shared_ptr2nr a)(reg_ptr \<mapsto> shared_ptr_count a),
               shared_ptr_count := shared_ptr_count a + 1\<rparr>)"

text \<open>
  The string operator as the pointer operators call it: for the type names they write,
  and for \<^verbatim>\<open>std::string name; (*this) & name;\<close> where they read one.
\<close>

definition and_name :: "'h program \<Rightarrow> string \<Rightarrow> (string, 'h) op" where
  "and_name P = and_string (string_max_size P) (uninit_int P)"

text \<open>
  \<^verbatim>\<open>Archive::operator& (T *& p)\<close>. The result is the value of \<open>p\<close> after the call:
  unchanged when writing, the restored pointer when reading. When writing, the table
  entry of a new address is made before the object is archived.
\<close>

definition and_ptr :: "'h program \<Rightarrow> tname \<Rightarrow> addr \<Rightarrow> (addr, 'h) op" where
  "and_ptr P T p a =
     (if is_output a then
        (if p = nullptr then bnd (and_int (- 2)) (\<lambda>_. ret p) a
         else
           bnd (lift (canonical_address P T p))
             (\<lambda>reg_ptr a.
                (case ptr2nr a reg_ptr of
                   None \<Rightarrow>
                     bnd (ptr2nr_assign reg_ptr)
                       (\<lambda>_. if typeid_of P p = T then
                               (if is_constructible P T
                                then bnd (and_int (- 1))
                                       (\<lambda>_. bnd (archive_object P T p) (\<lambda>_. ret p))
                                else throw (ConstructionFault (typeid_of P p)))
                             else
                               (if \<not> IsRegistered P (typeid_of P p)
                                then throw (RegistrationFault (typeid_of P p))
                                else bnd (and_int (- 3))
                                       (\<lambda>_. bnd (and_name P (typeid_of P p))
                                       (\<lambda>_. bnd (archive_object P T p) (\<lambda>_. ret p))))) a
                 | Some nr \<Rightarrow>
                     bnd (and_int nr)
                       (\<lambda>_. bnd (and_bool (reg_ptr \<noteq> p))
                       (\<lambda>_. bnd (and_name P (typeid_of P p)) (\<lambda>_. ret p))) a)) a)
      else
        bnd (and_int (uninit_int P))
          (\<lambda>nr. if nr = - 2 then ret nullptr
                else if nr = - 1 then
                  bnd (constructIfPossible P T)
                    (\<lambda>q. bnd (nr2ptr_push_back q)
                    (\<lambda>_. bnd (archive_object P T q) (\<lambda>_. ret q)))
                else if nr = - 3 then
                  bnd (and_name P [])
                    (\<lambda>name. bnd (GetArchiveRegister P name)
                    (\<lambda>info. bnd (create info T)
                    (\<lambda>q. bnd (lift (downcaster info T q))
                    (\<lambda>r. bnd (nr2ptr_push_back r)
                    (\<lambda>_. bnd (archive_object P T q) (\<lambda>_. ret q))))))
                else
                  bnd (and_bool (uninit_bool P))
                    (\<lambda>downcasted. bnd (and_name P [])
                    (\<lambda>name. if downcasted then
                               bnd (GetArchiveRegister P name)
                                 (\<lambda>info. bnd (nr2ptr_at nr)
                                 (\<lambda>q. lift (upcaster info T q)))
                             else nr2ptr_at nr))) a)"

subsection \<open>Shared pointers\<close>

text \<open>
  \<^verbatim>\<open>Archive::operator& (std::shared_ptr<T>& ptr)\<close>, with \<open>sp\<close> for \<open>ptr\<close>.
  \<open>neededDowncast\<close> is set when the downcast of the runtime type moved the address. When
  writing, the table entry of a new address is made after the raw pointer, and with it
  the object, has been archived; when reading, the handle is pushed after the raw
  pointer has been read.
\<close>

definition and_shared_ptr :: "'h program \<Rightarrow> tname \<Rightarrow> shared_ptr \<Rightarrow> (shared_ptr, 'h) op" where
  "and_shared_ptr P T sp a =
     (if is_output a then
        (if sp_get sp = nullptr then bnd (and_int (- 2)) (\<lambda>_. ret sp) a
         else
           bnd (lift (canonical_address P T (sp_get sp)))
             (\<lambda>reg_ptr a.
                (let neededDowncast = (reg_ptr \<noteq> sp_get sp) in
                 case shared_ptr2nr a reg_ptr of
                   None \<Rightarrow>
                     bnd (and_int (- 1))
                       (\<lambda>_. bnd (and_bool neededDowncast)
                       (\<lambda>_. bnd (and_ptr P T (sp_get sp))
                       (\<lambda>_. bnd (if neededDowncast
                                  then bnd (and_name P (typeid_of P (sp_get sp))) (\<lambda>_. ret ())
                                  else ret ())
                       (\<lambda>_. bnd (shared_ptr2nr_assign reg_ptr) (\<lambda>_. ret sp))))) a
                 | Some nr \<Rightarrow>
                     bnd (and_int nr)
                       (\<lambda>_. bnd (and_bool neededDowncast)
                       (\<lambda>_. if neededDowncast
                             then bnd (and_name P (typeid_of P (sp_get sp))) (\<lambda>_. ret sp)
                             else ret sp)) a)) a)
      else
        bnd (and_int (uninit_int P))
          (\<lambda>nr. if nr = - 2 then ret null_shared_ptr
                else if nr = - 1 then
                  bnd (and_bool (uninit_bool P))
                    (\<lambda>neededDowncast. bnd (and_ptr P T nullptr)
                    (\<lambda>p. bnd (make_shared_ptr p)
                    (\<lambda>new. if neededDowncast then
                              bnd (and_name P [])
                                (\<lambda>name. bnd (GetArchiveRegister P name)
                                (\<lambda>info. bnd (lift (downcaster info T (sp_get new)))
                                (\<lambda>q. bnd (nr2shared_ptr_push_back (aliasing new q))
                                (\<lambda>_. ret new))))
                            else
                              bnd (nr2shared_ptr_push_back new) (\<lambda>_. ret new))))
                else
                  bnd (nr2shared_ptr_at nr)
                    (\<lambda>other. bnd (and_bool (uninit_bool P))
                    (\<lambda>neededDowncast.
                       if neededDowncast then
                         bnd (and_name P [])
                           (\<lambda>name. bnd (GetArchiveRegister P name)
                           (\<lambda>info. bnd (lift (upcaster info T (sp_get other)))
                           (\<lambda>q. ret (aliasing other q))))
                       else ret other))) a)"

subsection \<open>Containers\<close>

text \<open>
  The element type of a container is a template parameter: \<open>elem\<close> is its
  \<^verbatim>\<open>operator &\<close>, taking the content of the variable and returning what it holds after
  the call.
\<close>

text \<open>
  A pointer \<^verbatim>\<open>T *\<close> into an array: the array, and the position it points to. The
  position of the past-the-end pointer is the length of the array; it points to no
  element.

  \<^verbatim>\<open>&v[0]\<close>: \<^verbatim>\<open>std::vector::operator[]\<close> forms the reference \<^verbatim>\<open>*(begin() + n)\<close> and
  checks nothing, and \<^verbatim>\<open>&\<close> takes its address. No element is read or written. For an
  empty vector the call is outside the precondition \<^verbatim>\<open>n < size()\<close> of
  \<^verbatim>\<open>operator[]\<close>; what is formed is then the past-the-end pointer of the empty array.
\<close>

type_synonym 'a pointer = "'a list \<times> nat"

definition vector_subscript_address :: "'a list \<Rightarrow> nat \<Rightarrow> 'a pointer" where
  "vector_subscript_address v n = (v, n)"

text \<open>
  \<^verbatim>\<open>Archive::Do (T * data, size_t n)\<close>:
  \<^verbatim>\<open>for (size_t j = 0; j < n; j++) { (*this) & data[j]; }\<close>, with \<open>arr\<close> and \<open>pos\<close> the
  array and the position behind \<open>data\<close>, and \<open>j\<close> the loop variable. \<open>data[j]\<close> is the
  element at \<open>pos + j\<close>; an access outside the array is the fault \<open>OutOfBounds\<close>. The
  result is the array as the calls leave it. (The overloads of \<open>Do\<close> for the scalar
  types in \<^verbatim>\<open>Archive\<close> are the same loop; \<^verbatim>\<open>BinaryInArchive\<close> replaces three of
  them by one read of \<open>n\<close> elements, which reaches the same elements.)
\<close>

function Do_from ::
  "('a \<Rightarrow> ('a, 'h) op) \<Rightarrow> 'a list \<Rightarrow> nat \<Rightarrow> nat \<Rightarrow> nat \<Rightarrow> ('a list, 'h) op" where
  "Do_from elem arr pos n j a =
     (if j < n then
        (if pos + j < length arr then
           (case elem (arr ! (pos + j)) a of
              (Inl e, a') \<Rightarrow> (Inl e, a')
            | (Inr y, a') \<Rightarrow> Do_from elem (arr[pos + j := y]) pos n (Suc j) a')
         else (Inl OutOfBounds, a))
      else (Inr arr, a))"
  by pat_completeness auto
termination
  by (relation "measure (\<lambda>(elem, arr, pos, n, j, a). n - j)") auto

declare Do_from.simps [simp del]

definition Do :: "('a \<Rightarrow> ('a, 'h) op) \<Rightarrow> 'a pointer \<Rightarrow> nat \<Rightarrow> ('a list, 'h) op" where
  "Do elem data n = Do_from elem (fst data) (snd data) n 0"

text \<open>
  \<^verbatim>\<open>std::vector<T>::resize(size)\<close>: the vector is cut or filled with value-initialised
  elements; beyond \<^verbatim>\<open>max_size()\<close> it throws \<^verbatim>\<open>std::length_error\<close>.
\<close>

definition vector_resize :: "nat \<Rightarrow> 'a \<Rightarrow> nat \<Rightarrow> 'a list \<Rightarrow> fault + 'a list" where
  "vector_resize max_size dflt n v =
     (if n > max_size then Inl LengthError
      else Inr (take n v @ replicate (n - length v) dflt))"

text \<open>
  \<^verbatim>\<open>Archive::operator & (std::vector<T>& v)\<close>:
  \<^verbatim>\<open>size_t size; if(Output()) size = v.size(); (*this) & size; if(Input()) v.resize(size); Do(&v[0], size);\<close>
  When reading, \<open>size\<close> has no value before the read: \<open>size0\<close> is what it holds then.
\<close>

definition and_vector ::
  "nat \<Rightarrow> 'a \<Rightarrow> nat \<Rightarrow> ('a \<Rightarrow> ('a, 'h) op) \<Rightarrow> 'a list \<Rightarrow> ('a list, 'h) op" where
  "and_vector max_size dflt size0 elem v a =
     bnd (and_size (if is_output a then length v else size0))
       (\<lambda>size a1.
          bnd (if \<not> is_output a1 then lift (vector_resize max_size dflt size v) else ret v)
            (\<lambda>v1. Do elem (vector_subscript_address v1 0) size) a1) a"

text \<open>
  A \<^verbatim>\<open>std::map<T1, T2>\<close> is the list of its pairs in iteration order, that is with
  strictly increasing keys. \<^verbatim>\<open>map[key] = val\<close> inserts the pair at its place or
  overwrites the value of a key that is present.
\<close>

fun map_assign :: "'k::linorder \<Rightarrow> 'v \<Rightarrow> ('k \<times> 'v) list \<Rightarrow> ('k \<times> 'v) list" where
  "map_assign key val [] = [(key, val)]"
| "map_assign key val ((k, v) # m) =
     (if key < k then (key, val) # (k, v) # m
      else if key = k then (key, val) # m
      else (k, v) # map_assign key val m)"

definition is_std_map :: "('k::linorder \<times> 'v) list \<Rightarrow> bool" where
  "is_std_map m \<longleftrightarrow> sorted (map fst m) \<and> distinct (map fst m)"

text \<open>\<^verbatim>\<open>for(auto& pair : map) (*this) << pair.first << pair.second;\<close>\<close>

fun map_write_pairs ::
  "('k \<Rightarrow> ('k, 'h) op) \<Rightarrow> ('v \<Rightarrow> ('v, 'h) op) \<Rightarrow> ('k \<times> 'v) list \<Rightarrow> (unit, 'h) op" where
  "map_write_pairs key_op val_op [] = ret ()"
| "map_write_pairs key_op val_op ((k, v) # m) =
     bnd (key_op k) (\<lambda>_. bnd (val_op v) (\<lambda>_. map_write_pairs key_op val_op m))"

text \<open>
  \<^verbatim>\<open>for(size_t i = 0; i < size; i++) { T1 key; T2 val; (*this) & key & val; map[key] = val; }\<close>,
  by the number of rounds left; \<open>key0\<close> and \<open>val0\<close> are the default-constructed key and value.
\<close>

fun map_read_pairs ::
  "('k::linorder \<Rightarrow> ('k, 'h) op) \<Rightarrow> ('v \<Rightarrow> ('v, 'h) op) \<Rightarrow> 'k \<Rightarrow> 'v \<Rightarrow> nat
     \<Rightarrow> ('k \<times> 'v) list \<Rightarrow> (('k \<times> 'v) list, 'h) op" where
  "map_read_pairs key_op val_op key0 val0 0 m = ret m"
| "map_read_pairs key_op val_op key0 val0 (Suc n) m =
     bnd (key_op key0)
       (\<lambda>key. bnd (val_op val0)
       (\<lambda>val. map_read_pairs key_op val_op key0 val0 n (map_assign key val m)))"

text \<open>
  \<^verbatim>\<open>Archive::operator& (std::map<T1, T2>& map)\<close>; when reading,
  \<^verbatim>\<open>size_t size = 0; (*this) & size;\<close>.
\<close>

definition and_map ::
  "('k::linorder \<Rightarrow> ('k, 'h) op) \<Rightarrow> ('v \<Rightarrow> ('v, 'h) op) \<Rightarrow> 'k \<Rightarrow> 'v
     \<Rightarrow> ('k \<times> 'v) list \<Rightarrow> (('k \<times> 'v) list, 'h) op" where
  "and_map key_op val_op key0 val0 m a =
     (if is_output a then
        bnd (and_size (length m))
          (\<lambda>_. bnd (map_write_pairs key_op val_op m) (\<lambda>_. ret m)) a
      else
        bnd (and_size 0)
          (\<lambda>size. map_read_pairs key_op val_op key0 val0 size m) a)"

text \<open>
  An element operator that archives a plain value: writing appends the items \<open>enc x\<close>
  and nothing else, and reading takes exactly these items back.
\<close>

definition value_codec :: "('a \<Rightarrow> ('a, 'h) op) \<Rightarrow> ('a \<Rightarrow> item list) \<Rightarrow> bool" where
  "value_codec f enc \<longleftrightarrow>
     (\<forall>x a. is_output a \<longrightarrow> f x a = (Inr x, a\<lparr>stream := stream a @ enc x\<rparr>)) \<and>
     (\<forall>x y b rest. \<not> is_output b \<and> stream b = enc x @ rest \<longrightarrow>
         f y b = (Inr x, b\<lparr>stream := rest\<rparr>))"

text \<open>The pairs on the stream, and the map a program builds by assigning pairs one by one.\<close>

definition pairs_items :: "('k \<Rightarrow> item list) \<Rightarrow> ('v \<Rightarrow> item list) \<Rightarrow> ('k \<times> 'v) list \<Rightarrow> item list" where
  "pairs_items kenc venc ps = concat (map (\<lambda>(k, v). kenc k @ venc v) ps)"

definition assign_all :: "('k::linorder \<times> 'v) list \<Rightarrow> ('k \<times> 'v) list \<Rightarrow> ('k \<times> 'v) list" where
  "assign_all ps m = fold (\<lambda>(k, v). map_assign k v) ps m"

text \<open>
  The value that the last pair with the key \<open>k\<close> in \<open>ps\<close> gives to \<open>k\<close>, if there is such
  a pair.
\<close>

fun last_value :: "('k \<times> 'v) list \<Rightarrow> 'k \<Rightarrow> 'v option" where
  "last_value [] k = None"
| "last_value ((k', v) # ps) k =
     (case last_value ps k of
        Some w \<Rightarrow> Some w
      | None \<Rightarrow> if k' = k then Some v else None)"

subsection \<open>Slot numbers\<close>

text \<open>
  The slot numbers in the two forward tables are the values the counters had when the
  entries were made: they lie between 0 and the counter. \<open>keeps_slots_ok\<close> says that the
  archiving of objects, which is code outside the archive, leaves that as it is (it can
  reach the tables only through the operators of the archive).
\<close>

definition slots_ok :: "'h archive \<Rightarrow> bool" where
  "slots_ok a \<longleftrightarrow>
     (\<forall>q n. ptr2nr a q = Some n \<longrightarrow> 0 \<le> n \<and> n < ptr_count a) \<and>
     (\<forall>q n. shared_ptr2nr a q = Some n \<longrightarrow> 0 \<le> n \<and> n < shared_ptr_count a) \<and>
     0 \<le> ptr_count a \<and> 0 \<le> shared_ptr_count a"

definition keeps_slots_ok :: "'h program \<Rightarrow> bool" where
  "keeps_slots_ok P \<longleftrightarrow> (\<forall>T p a. slots_ok a \<longrightarrow> slots_ok (snd (archive_object P T p a)))"

subsection \<open>Programs to run the archive on\<close>

text \<open>
  \<open>plain_program\<close>: every object is a \<open>Node\<close>, nothing is registered, and a node archives
  one \<^verbatim>\<open>int\<close>. \<open>face_program\<close>: every object is a \<open>Face\<close>, registered with its second
  base \<open>Colored\<close> at offset 8, so that a \<open>Colored*\<close> to a face is downcast by 8. The heap
  is the next free address.
\<close>

definition plain_program :: "nat program" where
  "plain_program =
     \<lparr>type_register = Map.empty,
      typeid_of = (\<lambda>_. ''Node''),
      is_constructible = (\<lambda>_. True),
      new_object = (\<lambda>T h. (h, h + 16)),
      archive_object = (\<lambda>T p. bnd (and_int 42) (\<lambda>_. ret ())),
      uninit_int = 0, uninit_bool = False, string_max_size = 1000\<rparr>"

definition face_info :: "nat ClassArchiveInfo" where
  "face_info =
     \<lparr>creator = (\<lambda>T h. (if T = ''Face'' then Inr h
                         else if T = ''Colored'' then Inr (h + 8) else Inl CastFault, h + 16)),
      upcaster = (\<lambda>T q. if T = ''Face'' then Inr q
                         else if T = ''Colored'' then Inr (q + 8) else Inl CastFault),
      downcaster = (\<lambda>T p. if T = ''Face'' then Inr p
                         else if T = ''Colored'' then Inr (p - 8) else Inl CastFault)\<rparr>"

definition face_program :: "nat program" where
  "face_program =
     \<lparr>type_register = [''Face'' \<mapsto> face_info],
      typeid_of = (\<lambda>_. ''Face''),
      is_constructible = (\<lambda>_. True),
      new_object = (\<lambda>T h. (h, h + 16)),
      archive_object = (\<lambda>T p. bnd (and_int 42) (\<lambda>_. ret ())),
      uninit_int = 0, uninit_bool = False, string_max_size = 1000\<rparr>"

text \<open>
  A class whose object holds a shared pointer to itself:
  \<^verbatim>\<open>struct Node { std::shared_ptr<Node> self; void DoArchive(Archive& ar) { ar & self; } };\<close>
  The heap is the next free address and the member \<open>self\<close> of the node at each address;
  \<^verbatim>\<open>new Node\<close> leaves the member empty. \<open>DoArchive\<close> calls the shared pointer operator,
  which calls \<open>DoArchive\<close> of the object pointed to: \<open>self_program n\<close> is the program with
  these calls nested at most \<open>n\<close> deep (at depth 0 a node archives nothing).
\<close>

record node_heap =
  next_free :: addr
  self_of :: "addr \<Rightarrow> shared_ptr"

definition set_self :: "addr \<Rightarrow> shared_ptr \<Rightarrow> (unit, node_heap) op" where
  "set_self p sp a = (Inr (), a\<lparr>heap := (heap a)\<lparr>self_of := (self_of (heap a))(p := sp)\<rparr>\<rparr>)"

primrec self_program :: "nat \<Rightarrow> node_heap program" where
  "self_program 0 =
     \<lparr>type_register = Map.empty,
      typeid_of = (\<lambda>_. ''Node''),
      is_constructible = (\<lambda>_. True),
      new_object = (\<lambda>T h. (next_free h,
         h\<lparr>next_free := next_free h + 16, self_of := (self_of h)(next_free h := null_shared_ptr)\<rparr>)),
      archive_object = (\<lambda>T p. ret ()),
      uninit_int = 0, uninit_bool = False, string_max_size = 1000\<rparr>"
| "self_program (Suc n) =
     \<lparr>type_register = Map.empty,
      typeid_of = (\<lambda>_. ''Node''),
      is_constructible = (\<lambda>_. True),
      new_object = (\<lambda>T h. (next_free h,
         h\<lparr>next_free := next_free h + 16, self_of := (self_of h)(next_free h := null_shared_ptr)\<rparr>)),
      archive_object = (\<lambda>T p a.
         bnd (and_shared_ptr (self_program n) ''Node'' (self_of (heap a) p)) (set_self p) a),
      uninit_int = 0, uninit_bool = False, string_max_size = 1000\<rparr>"

text \<open>
  The write session for the node at address 7 whose member \<open>self\<close> is a handle to
  the node itself, with the control block 0 that manages the node; and the read session
  on a stream, in which nothing has been allocated yet and addresses are given out from
  100.
\<close>

definition self_write_session :: "node_heap archive" where
  "self_write_session =
     (archive_init True []
        \<lparr>next_free = 100,
         self_of = (\<lambda>_. null_shared_ptr)(7 := \<lparr>sp_owner = Some 0, sp_get = 7\<rparr>)\<rparr>)
     \<lparr>control_blocks := [7]\<rparr>"

definition self_read_session :: "item list \<Rightarrow> node_heap archive" where
  "self_read_session s =
     archive_init False s \<lparr>next_free = 100, self_of = (\<lambda>_. null_shared_ptr)\<rparr>"

section \<open>Binary codec: properties of the buffered writer\<close>

definition buffer_ok :: "binary_out \<Rightarrow> bool" where
  "buffer_ok a \<longleftrightarrow> length (buffer a) = BUFFERSIZE \<and> ptr a \<le> BUFFERSIZE"

text \<open>What has been written so far: the sink followed by the pending part of the buffer.\<close>

definition written :: "binary_out \<Rightarrow> string" where
  "written a = ostream a @ take (ptr a) (buffer a)"

lemma buffer_ok_init: "buffer_ok (binary_out_init sink)"
  by (simp add: buffer_ok_def binary_out_init_def BUFFERSIZE_def)

lemma written_init: "written (binary_out_init sink) = sink"
  by (simp add: written_def binary_out_init_def)

lemma length_le_bytes [simp]: "length (le_bytes n v) = n"
  by (induction n arbitrary: v) simp_all

lemma length_object_repr: "length (object_repr x) \<le> 8"
  by (cases x) simp_all

lemma size_t_sub_no_wrap:
  assumes "n \<le> BUFFERSIZE"
  shows "(BUFFERSIZE + 2 ^ 64 - n) mod 2 ^ 64 = BUFFERSIZE - n"
proof -
  have "BUFFERSIZE + 2 ^ 64 - n = (BUFFERSIZE - n) + 2 ^ 64"
    using assms by (rule Nat.diff_add_assoc2)
  moreover have "BUFFERSIZE < 2 ^ 64"
    by (simp add: BUFFERSIZE_def)
  then have "BUFFERSIZE - n < 2 ^ 64"
    by (rule less_imp_diff_less)
  ultimately show ?thesis
    by (simp only: mod_add_self2 mod_less)
qed

lemma Write_step:
  assumes ok: "buffer_ok a" and sz: "length x \<le> BUFFERSIZE"
  shows "\<exists>a'. Write x a = Inr a' \<and> buffer_ok a' \<and> written a' = written a @ x"
proof (cases "ptr a > BUFFERSIZE - length x")
  case True
  from True ok sz show ?thesis
    unfolding Write_def size_t_sub_no_wrap [OF sz]
    by (simp add: buffer_ok_def written_def load_front_def store_at_def)
next
  case False
  from False ok sz have fit: "ptr a + length x \<le> length (buffer a)"
    by (simp add: buffer_ok_def)
  from False ok sz fit show ?thesis
    unfolding Write_def size_t_sub_no_wrap [OF sz]
    by (simp add: buffer_ok_def written_def load_front_def store_at_def)
qed

lemma Write_all_steps:
  assumes "buffer_ok a" and "\<forall>x \<in> set xs. length x \<le> BUFFERSIZE"
  shows "\<exists>a'. Write_all xs a = Inr a' \<and> buffer_ok a' \<and> written a' = written a @ concat xs"
  using assms
proof (induction xs arbitrary: a)
  case Nil
  then show ?case by simp
next
  case (Cons x xs)
  from Cons.prems obtain a1 where
    a1: "Write x a = Inr a1" "buffer_ok a1" "written a1 = written a @ x"
    using Write_step [of a x] by auto
  from Cons.IH [OF a1(2)] Cons.prems(2) obtain a2 where
    "Write_all xs a1 = Inr a2" "buffer_ok a2" "written a2 = written a1 @ concat xs"
    by auto
  with a1 show ?case by simp
qed

lemma FlushBuffer_written:
  assumes "buffer_ok a"
  shows "\<exists>a'. FlushBuffer a = Inr a' \<and> ostream a' = written a \<and> ptr a' = 0 \<and> buffer_ok a'"
  using assms
  by (cases "ptr a = 0") (simp_all add: FlushBuffer_def load_front_def buffer_ok_def written_def)

lemma binary_out_scalars_Write_all:
  "binary_out_scalars xs a = Write_all (map object_repr xs) a"
  by (induction xs arbitrary: a) (simp_all add: binary_out_scalar_def split: sum.splits)

lemma scalar_sizes_fit: "\<forall>x \<in> set (map object_repr xs). length x \<le> BUFFERSIZE"
proof
  fix x assume "x \<in> set (map object_repr xs)"
  then obtain s where "x = object_repr s" by auto
  then show "length x \<le> BUFFERSIZE"
    using length_object_repr [of s] by (simp add: BUFFERSIZE_def)
qed

text \<open>
  Claim C8. For every sequence of scalar writes to a binary output archive, the bytes in
  the sink after the final flush (explicit \<open>FlushBuffer\<close>, or the destructor, which calls
  it) are the concatenation of the fixed-width encodings of the scalars in write order:
  the buffered writer delivers what an unbuffered writer would.
\<close>

theorem buffered_writer_refines_unbuffered:
  "\<exists>a1 a2. binary_out_scalars xs (binary_out_init sink) = Inr a1
         \<and> FlushBuffer a1 = Inr a2
         \<and> ostream a2 = unbuffered_scalars xs sink"
proof -
  obtain a1 where a1: "Write_all (map object_repr xs) (binary_out_init sink) = Inr a1"
      "buffer_ok a1"
      "written a1 = written (binary_out_init sink) @ concat (map object_repr xs)"
    using Write_all_steps [OF buffer_ok_init scalar_sizes_fit] by blast
  obtain a2 where a2: "FlushBuffer a1 = Inr a2" "ostream a2 = written a1"
    using FlushBuffer_written [OF a1(2)] by auto
  from a1 a2 show ?thesis
    by (simp add: binary_out_scalars_Write_all unbuffered_scalars_def written_init)
qed

text \<open>
  Claim C9. For every sequence of writes whose sizes are at most the buffer size, started
  from the fresh archive, no store or load of \<open>Write\<close> leaves the 1024-byte buffer (the
  result is never the \<open>OutOfBounds\<close> fault) and the buffer index stays within
  \<open>0 \<le> ptr \<le> BUFFERSIZE\<close>. The statement holds for every sequence, hence for every
  prefix of a sequence: before and after every single call. The second part is the single
  step from any state within bounds.
\<close>

theorem Write_ptr_within_buffer:
  "((\<forall>x \<in> set xs. length x \<le> BUFFERSIZE) \<longrightarrow>
     (\<exists>a'. Write_all xs (binary_out_init sink) = Inr a'
          \<and> 0 \<le> ptr a' \<and> ptr a' \<le> BUFFERSIZE \<and> length (buffer a') = BUFFERSIZE))
   \<and> (length (buffer a) = BUFFERSIZE \<and> ptr a \<le> BUFFERSIZE \<and> length x \<le> BUFFERSIZE \<longrightarrow>
     (\<exists>a'. Write x a = Inr a' \<and> 0 \<le> ptr a' \<and> ptr a' \<le> BUFFERSIZE
          \<and> length (buffer a') = BUFFERSIZE))"
proof (intro conjI impI)
  assume "\<forall>x \<in> set xs. length x \<le> BUFFERSIZE"
  then obtain a' where "Write_all xs (binary_out_init sink) = Inr a'" "buffer_ok a'"
    using Write_all_steps [OF buffer_ok_init] by blast
  then show "\<exists>a'. Write_all xs (binary_out_init sink) = Inr a'
          \<and> 0 \<le> ptr a' \<and> ptr a' \<le> BUFFERSIZE \<and> length (buffer a') = BUFFERSIZE"
    by (simp add: buffer_ok_def)
next
  assume "length (buffer a) = BUFFERSIZE \<and> ptr a \<le> BUFFERSIZE \<and> length x \<le> BUFFERSIZE"
  then have "buffer_ok a" and "length x \<le> BUFFERSIZE"
    by (simp_all add: buffer_ok_def)
  then obtain a' where "Write x a = Inr a'" "buffer_ok a'"
    using Write_step by blast
  then show "\<exists>a'. Write x a = Inr a' \<and> 0 \<le> ptr a' \<and> ptr a' \<le> BUFFERSIZE
          \<and> length (buffer a') = BUFFERSIZE"
    by (simp add: buffer_ok_def)
qed

theorem Write_ptr_within_buffer_witness:
  "(length ''ab'' \<le> BUFFERSIZE \<and> length ''c'' \<le> BUFFERSIZE \<and>
     (\<exists>a'. Write_all [''ab'', ''c''] (binary_out_init []) = Inr a'
          \<and> 0 \<le> ptr a' \<and> ptr a' \<le> BUFFERSIZE \<and> length (buffer a') = BUFFERSIZE))
   \<and> (length (buffer (binary_out_init [])) = BUFFERSIZE \<and> ptr (binary_out_init []) \<le> BUFFERSIZE
        \<and> length ''d'' \<le> BUFFERSIZE) \<and>
     (\<exists>a'. Write ''d'' (binary_out_init []) = Inr a' \<and> 0 \<le> ptr a' \<and> ptr a' \<le> BUFFERSIZE
          \<and> length (buffer a') = BUFFERSIZE)"
proof -
  have h1: "\<forall>x \<in> set [''ab'', ''c'']. length x \<le> BUFFERSIZE"
    by (simp add: BUFFERSIZE_def)
  have h2: "length (buffer (binary_out_init [])) = BUFFERSIZE \<and> ptr (binary_out_init []) \<le> BUFFERSIZE
        \<and> length ''d'' \<le> BUFFERSIZE"
    by (simp add: BUFFERSIZE_def binary_out_init_def)
  have h3: "length ''ab'' \<le> BUFFERSIZE \<and> length ''c'' \<le> BUFFERSIZE"
    by (simp add: BUFFERSIZE_def)
  from h1 h2 h3
    Write_ptr_within_buffer [of "[''ab'', ''c'']" "[]" "binary_out_init []" "''d''"]
  show ?thesis by blast
qed


section \<open>Properties of the pointer operators\<close>

lemma bnd_ret [simp]: "bnd (ret x) f a = f x a"
  by (simp add: bnd_def ret_def)

lemma bnd_throw [simp]: "bnd (throw e) f a = (Inl e, a)"
  by (simp add: bnd_def throw_def)

lemma bnd_lift_Inr [simp]: "bnd (lift (Inr x)) f a = f x a"
  by (simp add: bnd_def lift_def)

lemma bnd_lift_Inl [simp]: "bnd (lift (Inl e)) f a = (Inl e, a)"
  by (simp add: bnd_def lift_def)

lemma bnd_Inr: "m a = (Inr x, a') \<Longrightarrow> bnd m f a = f x a'"
  by (simp add: bnd_def)

lemma bnd_Inl: "m a = (Inl e, a') \<Longrightarrow> bnd m f a = (Inl e, a')"
  by (simp add: bnd_def)

lemma and_int_out:
  "is_output a \<Longrightarrow> and_int i a = (Inr i, a\<lparr>stream := stream a @ [I_int i]\<rparr>)"
  by (simp add: and_int_def)

lemma and_bool_out:
  "is_output a \<Longrightarrow> and_bool b a = (Inr b, a\<lparr>stream := stream a @ [I_bool b]\<rparr>)"
  by (simp add: and_bool_def)

lemma and_name_out:
  "is_output a \<Longrightarrow> and_name P t a = (Inr t, a\<lparr>stream := stream a @ [I_string t]\<rparr>)"
  by (simp add: and_name_def and_string_def)

lemma and_int_in:
  "\<not> is_output a \<Longrightarrow> stream a = I_int i # rest \<Longrightarrow> and_int j a = (Inr i, a\<lparr>stream := rest\<rparr>)"
  by (simp add: and_int_def)

lemma and_bool_in:
  "\<not> is_output a \<Longrightarrow> stream a = I_bool b # rest \<Longrightarrow> and_bool c a = (Inr b, a\<lparr>stream := rest\<rparr>)"
  by (simp add: and_bool_def)

lemma and_name_in:
  "\<not> is_output a \<Longrightarrow> stream a = I_string t # rest \<Longrightarrow>
     and_name P u a = (Inr t, a\<lparr>stream := rest\<rparr>)"
  by (simp add: and_name_def and_string_def)

lemma and_ptr_seen:
  assumes "is_output a" "p \<noteq> nullptr" "canonical_address P T p = Inr reg_ptr"
    "ptr2nr a reg_ptr = Some nr"
  shows "and_ptr P T p a =
    (Inr p, a\<lparr>stream := stream a @ [I_int nr, I_bool (reg_ptr \<noteq> p), I_string (typeid_of P p)]\<rparr>)"
  using assms
  by (simp add: and_ptr_def bnd_Inr [OF and_int_out] bnd_Inr [OF and_bool_out]
      bnd_Inr [OF and_name_out] ret_def)

lemma and_ptr_seen_in:
  assumes "\<not> is_output b" "stream b = I_int nr # I_bool False # I_string name # rest"
    "nr \<noteq> - 1" "nr \<noteq> - 2" "nr \<noteq> - 3"
  shows "and_ptr P T p b = nr2ptr_at nr (b\<lparr>stream := rest\<rparr>)"
  using assms
  by (simp add: and_ptr_def and_int_def and_bool_def and_name_def and_string_def bnd_def)

lemma and_ptr_seen_in_cast:
  assumes "\<not> is_output b" "stream b = I_int nr # I_bool True # I_string name # rest"
    "nr \<noteq> - 1" "nr \<noteq> - 2" "nr \<noteq> - 3"
  shows "and_ptr P T p b =
    bnd (GetArchiveRegister P name) (\<lambda>info. bnd (nr2ptr_at nr) (\<lambda>q. lift (upcaster info T q)))
      (b\<lparr>stream := rest\<rparr>)"
  using assms
  by (simp add: and_ptr_def and_int_def and_bool_def and_name_def and_string_def bnd_def)

lemma and_ptr_null_out:
  "is_output a \<Longrightarrow> and_ptr P T nullptr a = (Inr nullptr, a\<lparr>stream := stream a @ [I_int (- 2)]\<rparr>)"
  by (simp add: and_ptr_def bnd_Inr [OF and_int_out] ret_def)

lemma and_ptr_null_in:
  "\<not> is_output b \<Longrightarrow> stream b = I_int (- 2) # rest \<Longrightarrow>
     and_ptr P T p b = (Inr nullptr, b\<lparr>stream := rest\<rparr>)"
  by (simp add: and_ptr_def bnd_Inr [OF and_int_in] ret_def)

lemma canonical_unregistered:
  "T \<noteq> typeid_of P p \<Longrightarrow> type_register P (typeid_of P p) = None \<Longrightarrow>
     canonical_address P T p = Inl (RegistrationFault (typeid_of P p))"
  by (simp add: canonical_address_def IsRegistered_def)

lemma unreg:
  assumes "is_output a" "p \<noteq> nullptr" "T \<noteq> typeid_of P p"
    "type_register P (typeid_of P p) = None"
  shows "and_ptr P T p a = (Inl (RegistrationFault (typeid_of P p)), a)
       \<and> and_shared_ptr P T \<lparr>sp_owner = ow, sp_get = p\<rparr> a = (Inl (RegistrationFault (typeid_of P p)), a)"
  using assms
  by (simp add: and_ptr_def and_shared_ptr_def canonical_unregistered)

lemma slots_ok_init: "slots_ok (archive_init out s h)"
  by (simp add: slots_ok_def archive_init_def)

lemma slots_ok_stream [simp]: "slots_ok (a\<lparr>stream := s\<rparr>) = slots_ok a"
  by (simp add: slots_ok_def)

lemma slots_ok_ptr2nr_assign:
  "slots_ok a \<Longrightarrow> slots_ok (snd (ptr2nr_assign q a))"
  by (fastforce simp: slots_ok_def ptr2nr_assign_def)

lemma slots_ok_shared_ptr2nr_assign:
  "slots_ok a \<Longrightarrow> slots_ok (snd (shared_ptr2nr_assign q a))"
  by (fastforce simp: slots_ok_def shared_ptr2nr_assign_def)

lemma snd_bnd:
  assumes "\<And>a. I a \<Longrightarrow> I (snd (m a))" "\<And>x a. I a \<Longrightarrow> I (snd (f x a))" "I a"
  shows "I (snd (bnd m f a))"
proof (cases "m a")
  case (Pair r a')
  with assms(1) [OF assms(3)] have "I a'" by simp
  with Pair assms(2) show ?thesis
    by (cases r) (simp_all add: bnd_def)
qed

lemma slots_ok_and_int: "slots_ok a \<Longrightarrow> slots_ok (snd (and_int i a))"
  by (auto simp: and_int_def split: list.splits item.splits)

lemma slots_ok_and_bool: "slots_ok a \<Longrightarrow> slots_ok (snd (and_bool i a))"
  by (auto simp: and_bool_def split: list.splits item.splits)

lemma slots_ok_and_name: "slots_ok a \<Longrightarrow> slots_ok (snd (and_name P i a))"
  by (auto simp: and_name_def and_string_def split: list.splits item.splits)

lemma slots_ok_ret: "slots_ok a \<Longrightarrow> slots_ok (snd (ret x a))"
  by (simp add: ret_def)

lemma slots_ok_throw: "slots_ok a \<Longrightarrow> slots_ok (snd (throw x a))"
  by (simp add: throw_def)

lemma slots_ok_lift: "slots_ok a \<Longrightarrow> slots_ok (snd (lift x a))"
  by (simp add: lift_def)

lemma slots_ok_archive_object:
  "keeps_slots_ok P \<Longrightarrow> slots_ok a \<Longrightarrow> slots_ok (snd (archive_object P T p a))"
  by (simp add: keeps_slots_ok_def)

lemma slots_ok_constructIfPossible: "slots_ok a \<Longrightarrow> slots_ok (snd (constructIfPossible P T a))"
  by (simp add: constructIfPossible_def slots_ok_def split: prod.splits)

lemma slots_ok_create: "slots_ok a \<Longrightarrow> slots_ok (snd (create info T a))"
  by (simp add: create_def slots_ok_def split: prod.splits)

lemma slots_ok_GetArchiveRegister: "slots_ok a \<Longrightarrow> slots_ok (snd (GetArchiveRegister P n a))"
  by (simp add: GetArchiveRegister_def throw_def ret_def split: option.splits)

lemma slots_ok_nr2ptr_at: "slots_ok a \<Longrightarrow> slots_ok (snd (nr2ptr_at n a))"
  by (simp add: nr2ptr_at_def)

lemma slots_ok_nr2shared_ptr_at: "slots_ok a \<Longrightarrow> slots_ok (snd (nr2shared_ptr_at n a))"
  by (simp add: nr2shared_ptr_at_def)

lemma slots_ok_nr2ptr_push_back: "slots_ok a \<Longrightarrow> slots_ok (snd (nr2ptr_push_back q a))"
  by (simp add: nr2ptr_push_back_def slots_ok_def)

lemma slots_ok_nr2shared_ptr_push_back:
  "slots_ok a \<Longrightarrow> slots_ok (snd (nr2shared_ptr_push_back q a))"
  by (simp add: nr2shared_ptr_push_back_def slots_ok_def)

lemma slots_ok_make_shared_ptr: "slots_ok a \<Longrightarrow> slots_ok (snd (make_shared_ptr q a))"
  by (simp add: make_shared_ptr_def slots_ok_def)

lemmas slots_ok_intros =
  slots_ok_and_int slots_ok_and_bool slots_ok_and_name slots_ok_ret slots_ok_throw
  slots_ok_lift slots_ok_archive_object slots_ok_ptr2nr_assign slots_ok_shared_ptr2nr_assign
  slots_ok_constructIfPossible slots_ok_create slots_ok_GetArchiveRegister slots_ok_nr2ptr_at
  slots_ok_nr2shared_ptr_at slots_ok_nr2ptr_push_back slots_ok_nr2shared_ptr_push_back
  slots_ok_make_shared_ptr

lemma slots_ok_and_ptr:
  assumes "keeps_slots_ok P" "slots_ok a"
  shows "slots_ok (snd (and_ptr P T p a))"
  using assms
  unfolding and_ptr_def
  by (auto intro!: snd_bnd [where I = slots_ok] slots_ok_intros split: option.splits)

lemma slots_ok_and_shared_ptr:
  assumes "keeps_slots_ok P" "slots_ok a"
  shows "slots_ok (snd (and_shared_ptr P T sp a))"
  using assms
  unfolding and_shared_ptr_def
  by (auto simp: Let_def intro!: snd_bnd [where I = slots_ok] slots_ok_intros slots_ok_and_ptr
      split: option.splits)

lemmas eval_defs =
  and_shared_ptr_def and_ptr_def canonical_address_def IsRegistered_def GetArchiveRegister_def
  constructIfPossible_def create_def nr2ptr_at_def nr2shared_ptr_at_def nr2ptr_push_back_def
  nr2shared_ptr_push_back_def ptr2nr_assign_def shared_ptr2nr_assign_def make_shared_ptr_def
  and_int_def and_bool_def and_name_def and_string_def and_size_def bnd_def ret_def throw_def
  lift_def archive_init_def nullptr_def null_shared_ptr_def aliasing_def Let_def

text \<open>
  Claim C2 says that for a raw pointer whose canonical address was already seen the type
  name is written only if the was-downcast flag is true. The operator writes the name in
  every case: archiving the same node twice, the second record is slot 0, flag false and
  the name.
\<close>

theorem seen_pointer_writes_name_without_downcast:
  "and_ptr plain_program ''Node'' 7
     (snd (and_ptr plain_program ''Node'' 7 (archive_init True [] 100)))
   = (Inr 7,
      \<lparr>is_output = True, shared_ptr_count = 0, ptr_count = 1,
       shared_ptr2nr = Map.empty, ptr2nr = [7 \<mapsto> 0],
       nr2shared_ptr = [], nr2ptr = [],
       stream = [I_int (- 1), I_int 42] @ [I_int 0, I_bool False, I_string ''Node''],
       heap = 100, control_blocks = []\<rparr>)"
  by (simp add: eval_defs plain_program_def)

text \<open>
  Claim C2, amended. For every raw pointer whose canonical address was already seen in
  the write session, the record written consists of the slot number, the was-downcast
  flag and the runtime type name, whatever the flag; nothing else of the archive changes.
  The reader takes the three of them in both cases as well: a record that starts with a
  slot number (a number other than the three sentinels) is the number, the flag and the
  name, after which the pointer is the table entry of that slot or, with the flag set,
  its upcast by the class registered under the name.
\<close>

theorem seen_pointer_record:
  "(is_output a \<and> p \<noteq> nullptr \<and> canonical_address P T p = Inr reg_ptr
      \<and> ptr2nr a reg_ptr = Some nr \<longrightarrow>
    and_ptr P T p a =
      (Inr p, a\<lparr>stream := stream a @
         [I_int nr, I_bool (reg_ptr \<noteq> p), I_string (typeid_of P p)]\<rparr>))
   \<and> (\<not> is_output b \<and> stream b = I_int n # I_bool False # I_string name # rest
      \<and> 0 \<le> n \<and> nat n < length (nr2ptr b) \<longrightarrow>
    and_ptr P T q b = (Inr (nr2ptr b ! nat n), b\<lparr>stream := rest\<rparr>))
   \<and> (\<not> is_output b \<and> stream b = I_int n # I_bool True # I_string name # rest
      \<and> 0 \<le> n \<and> nat n < length (nr2ptr b)
      \<and> type_register P name = Some info \<and> upcaster info T (nr2ptr b ! nat n) = Inr r \<longrightarrow>
    and_ptr P T q b = (Inr r, b\<lparr>stream := rest\<rparr>))"
proof (intro conjI impI)
  assume "is_output a \<and> p \<noteq> nullptr \<and> canonical_address P T p = Inr reg_ptr
      \<and> ptr2nr a reg_ptr = Some nr"
  then show "and_ptr P T p a =
      (Inr p, a\<lparr>stream := stream a @
         [I_int nr, I_bool (reg_ptr \<noteq> p), I_string (typeid_of P p)]\<rparr>)"
    using and_ptr_seen by blast
next
  assume h: "\<not> is_output b \<and> stream b = I_int n # I_bool False # I_string name # rest
      \<and> 0 \<le> n \<and> nat n < length (nr2ptr b)"
  then have "and_ptr P T q b = nr2ptr_at n (b\<lparr>stream := rest\<rparr>)"
    by (intro and_ptr_seen_in [where name = name]) auto
  with h show "and_ptr P T q b = (Inr (nr2ptr b ! nat n), b\<lparr>stream := rest\<rparr>)"
    by (simp add: nr2ptr_at_def)
next
  assume h: "\<not> is_output b \<and> stream b = I_int n # I_bool True # I_string name # rest
      \<and> 0 \<le> n \<and> nat n < length (nr2ptr b)
      \<and> type_register P name = Some info \<and> upcaster info T (nr2ptr b ! nat n) = Inr r"
  then have "and_ptr P T q b =
      bnd (GetArchiveRegister P name) (\<lambda>info. bnd (nr2ptr_at n) (\<lambda>q. lift (upcaster info T q)))
        (b\<lparr>stream := rest\<rparr>)"
    by (intro and_ptr_seen_in_cast) auto
  with h show "and_ptr P T q b = (Inr r, b\<lparr>stream := rest\<rparr>)"
    by (simp add: GetArchiveRegister_def nr2ptr_at_def bnd_def ret_def lift_def)
qed

theorem seen_pointer_record_witness:
  "stream (snd (and_ptr plain_program ''Node'' 7
         (snd (and_ptr plain_program ''Node'' 7 (archive_init True [] 100)))))
       = [I_int (- 1), I_int 42, I_int 0, I_bool False, I_string ''Node'']
   \<and> and_ptr plain_program ''Node'' nullptr
       (snd (and_ptr plain_program ''Node'' nullptr
          (archive_init False
             [I_int (- 1), I_int 42, I_int 0, I_bool False, I_string ''Node'', I_int 5] 100)))
       = (Inr 100,
          (snd (and_ptr plain_program ''Node'' nullptr
             (archive_init False
                [I_int (- 1), I_int 42, I_int 0, I_bool False, I_string ''Node'', I_int 5] 100)))
          \<lparr>stream := [I_int 5]\<rparr>)
   \<and> and_ptr face_program ''Colored'' nullptr
       (snd (and_ptr face_program ''Face'' nullptr
          (archive_init False
             [I_int (- 1), I_int 42, I_int 0, I_bool True, I_string ''Face'', I_int 5] 100)))
       = (Inr 108,
          (snd (and_ptr face_program ''Face'' nullptr
             (archive_init False
                [I_int (- 1), I_int 42, I_int 0, I_bool True, I_string ''Face'', I_int 5] 100)))
          \<lparr>stream := [I_int 5]\<rparr>)"
proof -
  let ?a = "snd (and_ptr plain_program ''Node'' 7 (archive_init True [] (100 :: nat)))"
  let ?b = "snd (and_ptr plain_program ''Node'' nullptr
          (archive_init False
             [I_int (- 1), I_int 42, I_int 0, I_bool False, I_string ''Node'', I_int 5]
             (100 :: nat)))"
  let ?c = "snd (and_ptr face_program ''Face'' nullptr
          (archive_init False
             [I_int (- 1), I_int 42, I_int 0, I_bool True, I_string ''Face'', I_int 5]
             (100 :: nat)))"
  have ha: "is_output ?a \<and> (7 :: addr) \<noteq> nullptr
      \<and> canonical_address plain_program ''Node'' 7 = Inr 7 \<and> ptr2nr ?a 7 = Some 0"
    by (simp add: eval_defs plain_program_def)
  have sa: "stream ?a = [I_int (- 1), I_int 42]"
    by (simp add: eval_defs plain_program_def)
  have ta: "typeid_of plain_program 7 = ''Node''"
    by (simp add: plain_program_def)
  have hb: "\<not> is_output ?b \<and> stream ?b = I_int 0 # I_bool False # I_string ''Node'' # [I_int 5]
      \<and> (0 :: int) \<le> 0 \<and> nat 0 < length (nr2ptr ?b)"
    by (simp add: eval_defs plain_program_def)
  have nb: "nr2ptr ?b ! nat 0 = 100"
    by (simp add: eval_defs plain_program_def)
  have hc: "\<not> is_output ?c \<and> stream ?c = I_int 0 # I_bool True # I_string ''Face'' # [I_int 5]
      \<and> (0 :: int) \<le> 0 \<and> nat 0 < length (nr2ptr ?c)
      \<and> type_register face_program ''Face'' = Some face_info
      \<and> upcaster face_info ''Colored'' (nr2ptr ?c ! nat 0) = Inr 108"
    by (simp add: eval_defs face_program_def face_info_def)
  from ha sa ta
    seen_pointer_record [where a = ?a and p = 7 and P = plain_program and T = "''Node''"
      and reg_ptr = 7 and nr = 0]
  have A: "stream (snd (and_ptr plain_program ''Node'' 7 ?a))
      = [I_int (- 1), I_int 42, I_int 0, I_bool False, I_string ''Node'']"
    by simp
  from hb nb
    seen_pointer_record [where b = ?b and n = 0 and name = "''Node''" and rest = "[I_int 5]"
      and P = plain_program and T = "''Node''" and q = nullptr]
  have B: "and_ptr plain_program ''Node'' nullptr ?b = (Inr 100, ?b\<lparr>stream := [I_int 5]\<rparr>)"
    by simp
  from hc
    seen_pointer_record [where b = ?c and n = 0 and name = "''Face''" and rest = "[I_int 5]"
      and P = face_program and T = "''Colored''" and q = nullptr and info = face_info and r = 108]
  have C: "and_ptr face_program ''Colored'' nullptr ?c = (Inr 108, ?c\<lparr>stream := [I_int 5]\<rparr>)"
    by blast
  from A B C show ?thesis by simp
qed

text \<open>
  Claim C4. Archiving a non-null pointer or shared pointer whose runtime type differs from
  its static type and is not in the type register raises the registration fault naming
  the runtime type, and leaves the archive exactly as it was: nothing written, no table
  entry, no counter changed.
\<close>

theorem unregistered_runtime_type_faults_first:
  "is_output a \<and> p \<noteq> nullptr \<and> T \<noteq> typeid_of P p
     \<and> type_register P (typeid_of P p) = None \<longrightarrow>
   and_ptr P T p a = (Inl (RegistrationFault (typeid_of P p)), a)
   \<and> and_shared_ptr P T \<lparr>sp_owner = ow, sp_get = p\<rparr> a
       = (Inl (RegistrationFault (typeid_of P p)), a)"
  using unreg by blast

theorem unregistered_runtime_type_faults_first_witness:
  "is_output (archive_init True [] (100 :: nat)) \<and> (7 :: addr) \<noteq> nullptr
   \<and> ''Base'' \<noteq> typeid_of plain_program 7
   \<and> type_register plain_program (typeid_of plain_program 7) = None
   \<and> and_ptr plain_program ''Base'' 7 (archive_init True [] 100)
       = (Inl (RegistrationFault ''Node''), archive_init True [] 100)
   \<and> and_shared_ptr plain_program ''Base'' \<lparr>sp_owner = Some 0, sp_get = 7\<rparr>
         (archive_init True [] 100)
       = (Inl (RegistrationFault ''Node''), archive_init True [] 100)"
proof -
  have h: "is_output (archive_init True [] (100 :: nat)) \<and> (7 :: addr) \<noteq> nullptr
     \<and> ''Base'' \<noteq> typeid_of plain_program 7
     \<and> type_register plain_program (typeid_of plain_program 7) = None"
    by (simp add: archive_init_def nullptr_def plain_program_def)
  have t: "typeid_of plain_program 7 = ''Node''"
    by (simp add: plain_program_def)
  from h unregistered_runtime_type_faults_first
    [of "archive_init True [] (100 :: nat)" 7 "''Base''" plain_program "Some 0"]
  show ?thesis unfolding t by blast
qed

text \<open>
  Claim C5. Writing a null raw pointer appends exactly the sentinel \<open>-2\<close> and changes
  nothing else; \<open>-2\<close> is neither of the sentinels \<open>-1\<close> and \<open>-3\<close> nor a slot number
  (slot numbers are not negative: that holds in a fresh archive and is kept by both
  pointer operators); reading the sentinel restores the null pointer and consumes the
  sentinel only.
\<close>

theorem null_pointer_round_trip:
  "(is_output a \<longrightarrow>
      and_ptr P T nullptr a = (Inr nullptr, a\<lparr>stream := stream a @ [I_int (- 2)]\<rparr>))
   \<and> (slots_ok a \<and> (ptr2nr a q = Some n \<or> shared_ptr2nr a q = Some n) \<longrightarrow>
        n \<noteq> - 2 \<and> 0 \<le> n)
   \<and> slots_ok (archive_init out s h)
   \<and> (keeps_slots_ok P \<and> slots_ok a \<longrightarrow>
        slots_ok (snd (and_ptr P T p a)) \<and> slots_ok (snd (and_shared_ptr P T sp a)))
   \<and> (- 2 :: int) \<noteq> - 1 \<and> (- 2 :: int) \<noteq> - 3
   \<and> (\<not> is_output b \<and> stream b = I_int (- 2) # rest \<longrightarrow>
        and_ptr P T p b = (Inr nullptr, b\<lparr>stream := rest\<rparr>))"
proof -
  have slot: "0 \<le> n" if "slots_ok a" "ptr2nr a q = Some n \<or> shared_ptr2nr a q = Some n"
    using that unfolding slots_ok_def by blast
  then have "slots_ok a \<and> (ptr2nr a q = Some n \<or> shared_ptr2nr a q = Some n) \<longrightarrow>
        n \<noteq> - 2 \<and> 0 \<le> n"
    by fastforce
  moreover have "keeps_slots_ok P \<and> slots_ok a \<longrightarrow>
        slots_ok (snd (and_ptr P T p a)) \<and> slots_ok (snd (and_shared_ptr P T sp a))"
    using slots_ok_and_ptr [of P a T p] slots_ok_and_shared_ptr [of P a T sp] by blast
  moreover note and_ptr_null_out [of a P T] and_ptr_null_in [of b rest P T p]
    slots_ok_init [of out s h]
  ultimately show ?thesis by simp
qed

lemma keeps_slots_ok_plain_program: "keeps_slots_ok plain_program"
  unfolding keeps_slots_ok_def plain_program_def
  by (auto intro!: snd_bnd [where I = slots_ok] slots_ok_and_int slots_ok_ret)

theorem null_pointer_round_trip_witness:
  "stream (snd (and_ptr plain_program ''Node'' nullptr
       (snd (and_ptr plain_program ''Node'' 7 (archive_init True [] 100)))))
     = [I_int (- 1), I_int 42, I_int (- 2)]
   \<and> and_ptr plain_program ''Node'' 7 (archive_init False [I_int (- 2), I_int 5] 100)
     = (Inr nullptr, archive_init False [I_int 5] 100)
   \<and> slots_ok (snd (and_ptr plain_program ''Node'' 7 (archive_init True [] 100)))
   \<and> ptr2nr (snd (and_ptr plain_program ''Node'' 7 (archive_init True [] 100))) 7 = Some 0
   \<and> (0 :: int) \<noteq> - 2
   \<and> slots_ok (snd (and_ptr plain_program ''Node'' 9
        (snd (and_ptr plain_program ''Node'' 7 (archive_init True [] 100)))))"
proof -
  let ?r = "archive_init False [I_int (- 2), I_int 5] (100 :: nat)"
  let ?v = "snd (and_ptr plain_program ''Node'' 7 (archive_init True [] (100 :: nat)))"
  let ?sp = "\<lparr>sp_owner = Some 0, sp_get = 9\<rparr>"
  have h1: "is_output ?v \<and> stream ?v = [I_int (- 1), I_int 42]"
    by (simp add: eval_defs plain_program_def)
  have h2: "\<not> is_output ?r \<and> stream ?r = I_int (- 2) # [I_int 5]"
    by (simp add: archive_init_def)
  have h3: "slots_ok ?v \<and> ptr2nr ?v 7 = Some 0"
    by (simp add: eval_defs plain_program_def slots_ok_def)
  have e2: "?r\<lparr>stream := [I_int 5]\<rparr> = archive_init False [I_int 5] 100"
    by (simp add: archive_init_def)
  note inst = null_pointer_round_trip [where a = ?v and P = plain_program and T = "''Node''"
      and q = 7 and n = 0 and b = ?r and rest = "[I_int 5]" and p = 9 and out = True
      and s = "[]" and h = "100 :: nat" and sp = ?sp]
  from inst h1 have "and_ptr plain_program ''Node'' nullptr ?v
      = (Inr nullptr, ?v\<lparr>stream := stream ?v @ [I_int (- 2)]\<rparr>)"
    by blast
  then have "stream (snd (and_ptr plain_program ''Node'' nullptr ?v)) = stream ?v @ [I_int (- 2)]"
    by simp
  with h1 have A: "stream (snd (and_ptr plain_program ''Node'' nullptr ?v))
      = [I_int (- 1), I_int 42, I_int (- 2)]"
    by simp
  from inst h3 keeps_slots_ok_plain_program
  have C: "slots_ok (snd (and_ptr plain_program ''Node'' 9 ?v))"
    by blast
  from h2 null_pointer_round_trip [where a = ?v and P = plain_program and T = "''Node''"
      and q = 7 and n = 0 and b = ?r and rest = "[I_int 5]" and p = 7 and out = True
      and s = "[]" and h = "100 :: nat" and sp = ?sp]
  have B: "and_ptr plain_program ''Node'' 7 ?r = (Inr nullptr, archive_init False [I_int 5] 100)"
    unfolding e2 [symmetric] by blast
  from A B C h3 show ?thesis by simp
qed

text \<open>
  Two occurrences of one handle, the second after the first has returned: the first
  writes \<open>-1\<close>, the flag and the record of the raw pointer with the object in it, the
  second the slot number and the flag only; read back, both are the handle with the
  control block 0, and no other control block is made.
\<close>

lemma shared_ptr_twice_in_sequence:
  "stream (snd (and_shared_ptr plain_program ''Node'' \<lparr>sp_owner = Some 0, sp_get = 7\<rparr>
       (snd (and_shared_ptr plain_program ''Node'' \<lparr>sp_owner = Some 0, sp_get = 7\<rparr>
          (archive_init True [] 100)))))
     = [I_int (- 1), I_bool False, I_int (- 1), I_int 42] @ [I_int 0, I_bool False]
   \<and> and_shared_ptr plain_program ''Node'' null_shared_ptr
       (archive_init False
          [I_int (- 1), I_bool False, I_int (- 1), I_int 42, I_int 0, I_bool False] 100)
     = (Inr \<lparr>sp_owner = Some 0, sp_get = 100\<rparr>,
        \<lparr>is_output = False, shared_ptr_count = 0, ptr_count = 0,
         shared_ptr2nr = Map.empty, ptr2nr = Map.empty,
         nr2shared_ptr = [\<lparr>sp_owner = Some 0, sp_get = 100\<rparr>], nr2ptr = [100],
         stream = [I_int 0, I_bool False], heap = 116, control_blocks = [100]\<rparr>)
   \<and> and_shared_ptr plain_program ''Node'' null_shared_ptr
        \<lparr>is_output = False, shared_ptr_count = 0, ptr_count = 0,
         shared_ptr2nr = Map.empty, ptr2nr = Map.empty,
         nr2shared_ptr = [\<lparr>sp_owner = Some 0, sp_get = 100\<rparr>], nr2ptr = [100],
         stream = [I_int 0, I_bool False], heap = 116, control_blocks = [100]\<rparr>
     = (Inr \<lparr>sp_owner = Some 0, sp_get = 100\<rparr>,
        \<lparr>is_output = False, shared_ptr_count = 0, ptr_count = 0,
         shared_ptr2nr = Map.empty, ptr2nr = Map.empty,
         nr2shared_ptr = [\<lparr>sp_owner = Some 0, sp_get = 100\<rparr>], nr2ptr = [100],
         stream = [], heap = 116, control_blocks = [100]\<rparr>)"
  by (simp add: eval_defs plain_program_def)

text \<open>
  Claim C1 says that in every write session only the first occurrence of a shared handle
  writes the object and every later one writes its slot number and the flag, and that
  the later one is read back as the very handle of the first. The shared pointer
  operator enters the address into its table when the raw pointer and the object in it
  have been written, not before, as the raw pointer operator does. An occurrence of the
  handle inside the object is therefore not found in the table. For the node at address
  7 that holds a handle to itself, written through a handle with the same control block:
  the occurrence inside the node is written as a second record \<open>-1\<close> and takes a slot
  of its own; and reading what was written makes two control blocks for the one node
  restored at address 100: the handle returned has control block 1, the member of the
  node control block 0. The calls are nested two deep, and the run is the same for
  every greater depth \<open>Suc (Suc n)\<close> of \<open>self_program\<close>.
\<close>

theorem shared_ptr_inside_its_object_becomes_second_owner:
  "stream (snd (and_shared_ptr (self_program (Suc (Suc n))) ''Node''
       \<lparr>sp_owner = Some 0, sp_get = 7\<rparr> self_write_session))
     = [I_int (- 1), I_bool False, I_int (- 1)]
         @ [I_int (- 1), I_bool False, I_int 0, I_bool False, I_string ''Node'']
   \<and> shared_ptr_count (snd (and_shared_ptr (self_program (Suc (Suc n))) ''Node''
       \<lparr>sp_owner = Some 0, sp_get = 7\<rparr> self_write_session)) = 2
   \<and> fst (and_shared_ptr (self_program (Suc (Suc n))) ''Node'' null_shared_ptr
       (self_read_session (stream (snd (and_shared_ptr (self_program (Suc (Suc n))) ''Node''
          \<lparr>sp_owner = Some 0, sp_get = 7\<rparr> self_write_session)))))
     = Inr \<lparr>sp_owner = Some 1, sp_get = 100\<rparr>
   \<and> self_of (heap (snd (and_shared_ptr (self_program (Suc (Suc n))) ''Node'' null_shared_ptr
       (self_read_session (stream (snd (and_shared_ptr (self_program (Suc (Suc n))) ''Node''
          \<lparr>sp_owner = Some 0, sp_get = 7\<rparr> self_write_session))))))) 100
     = \<lparr>sp_owner = Some 0, sp_get = 100\<rparr>
   \<and> control_blocks (snd (and_shared_ptr (self_program (Suc (Suc n))) ''Node'' null_shared_ptr
       (self_read_session (stream (snd (and_shared_ptr (self_program (Suc (Suc n))) ''Node''
          \<lparr>sp_owner = Some 0, sp_get = 7\<rparr> self_write_session))))))
     = [100, 100]"
proof -
  let ?P = "self_program (Suc (Suc n))"
  let ?w = "snd (and_shared_ptr ?P ''Node'' \<lparr>sp_owner = Some 0, sp_get = 7\<rparr> self_write_session)"
  have s: "stream ?w = [I_int (- 1), I_bool False, I_int (- 1),
      I_int (- 1), I_bool False, I_int 0, I_bool False, I_string ''Node'']"
    by (simp add: eval_defs self_write_session_def set_self_def)
  have c: "shared_ptr_count ?w = 2"
    by (simp add: eval_defs self_write_session_def set_self_def)
  let ?r = "and_shared_ptr ?P ''Node'' null_shared_ptr
      (self_read_session [I_int (- 1), I_bool False, I_int (- 1),
         I_int (- 1), I_bool False, I_int 0, I_bool False, I_string ''Node''])"
  have r1: "fst ?r = Inr \<lparr>sp_owner = Some 1, sp_get = 100\<rparr>"
    by (simp add: eval_defs self_read_session_def set_self_def)
  have r2: "self_of (heap (snd ?r)) 100 = \<lparr>sp_owner = Some 0, sp_get = 100\<rparr>"
    by (simp add: eval_defs self_read_session_def set_self_def)
  have r3: "control_blocks (snd ?r) = [100, 100]"
    by (simp add: eval_defs self_read_session_def set_self_def)
  from s c r1 r2 r3 show ?thesis by simp
qed

section \<open>Properties of the container operators\<close>

lemma Do_from_in_bounds:
  "(\<forall>x a. fst (elem x a) \<noteq> Inl OutOfBounds) \<Longrightarrow> pos + n \<le> length arr \<Longrightarrow>
     fst (Do_from elem arr pos n j a) \<noteq> Inl OutOfBounds"
proof (induction elem arr pos n j a rule: Do_from.induct)
  case (1 elem arr pos n j a)
  show ?case
  proof (cases "j < n")
    case False
    then show ?thesis by (subst Do_from.simps) simp
  next
    case True
    with "1.prems" have jl: "pos + j < length arr" by simp
    obtain r a' where r: "elem (arr ! (pos + j)) a = (r, a')" by (cases "elem (arr ! (pos + j)) a")
    show ?thesis
    proof (cases r)
      case (Inl e)
      from "1.prems"(1) have "fst (elem (arr ! (pos + j)) a) \<noteq> Inl OutOfBounds" by blast
      with r Inl have "e \<noteq> OutOfBounds" by simp
      with True jl r Inl show ?thesis by (subst Do_from.simps) simp
    next
      case (Inr y)
      with "1.IH" [OF True jl r [symmetric, unfolded Inr] refl] "1.prems"
      have "fst (Do_from elem (arr[pos + j := y]) pos n (Suc j) a') \<noteq> Inl OutOfBounds"
        by simp
      with True jl r Inr show ?thesis by (subst Do_from.simps) simp
    qed
  qed
qed

lemma Do_zero: "Do elem data 0 a = (Inr (fst data), a)"
  by (simp add: Do_def Do_from.simps)

lemma Do_past_the_end:
  "Do elem (vector_subscript_address [] 0) (Suc n) a = (Inl OutOfBounds, a)"
  by (simp add: Do_def vector_subscript_address_def Do_from.simps)

lemma and_size_returns:
  "\<exists>m a'. and_size n a = (Inr m, a') \<and> is_output a' = is_output a"
  by (auto simp: and_size_def split: list.splits item.splits)

lemma and_vector_in_bounds:
  assumes "\<forall>x a. fst (elem x a) \<noteq> Inl OutOfBounds"
  shows "fst (and_vector max_size dflt size0 elem v a) \<noteq> Inl OutOfBounds"
proof (cases "is_output a")
  case True
  then have "and_vector max_size dflt size0 elem v a
      = Do elem (vector_subscript_address v 0) (length v)
          (a\<lparr>stream := stream a @ [I_size (length v)]\<rparr>)"
    by (simp add: and_vector_def and_size_def bnd_def ret_def)
  then show ?thesis
    using Do_from_in_bounds [OF assms, of 0 "length v" v]
    by (simp add: Do_def vector_subscript_address_def)
next
  case False
  from and_size_returns [of size0 a] obtain n a1 where
    sz: "and_size size0 a = (Inr n, a1)" and out: "is_output a1 = is_output a"
    by blast
  show ?thesis
  proof (cases "n > max_size")
    case True
    with False sz out show ?thesis
      by (simp add: and_vector_def bnd_def vector_resize_def lift_def)
  next
    case big: False
    let ?v1 = "take n v @ replicate (n - length v) dflt"
    have len: "0 + n \<le> length ?v1" by simp
    from False sz out big
    have "and_vector max_size dflt size0 elem v a
        = Do elem (vector_subscript_address ?v1 0) n a1"
      by (simp add: and_vector_def bnd_def vector_resize_def lift_def)
    then show ?thesis
      using Do_from_in_bounds [OF assms len]
      by (simp add: Do_def vector_subscript_address_def)
  qed
qed

lemma and_vector_empty_out:
  "is_output a \<Longrightarrow>
     and_vector max_size dflt size0 elem [] a = (Inr [], a\<lparr>stream := stream a @ [I_size 0]\<rparr>)"
  by (simp add: and_vector_def and_size_def bnd_def Do_zero ret_def vector_subscript_address_def)

lemma and_vector_empty_in:
  "\<not> is_output b \<Longrightarrow> stream b = I_size 0 # rest \<Longrightarrow>
     and_vector max_size dflt size0 elem v b = (Inr [], b\<lparr>stream := rest\<rparr>)"
  by (simp add: and_vector_def and_size_def bnd_def Do_zero vector_resize_def lift_def
      vector_subscript_address_def)

lemma value_codec_out:
  "value_codec f enc \<Longrightarrow> is_output a \<Longrightarrow> f x a = (Inr x, a\<lparr>stream := stream a @ enc x\<rparr>)"
  by (simp add: value_codec_def)

lemma value_codec_in:
  "value_codec f enc \<Longrightarrow> \<not> is_output b \<Longrightarrow> stream b = enc x @ rest \<Longrightarrow>
     f y b = (Inr x, b\<lparr>stream := rest\<rparr>)"
  unfolding value_codec_def by blast

lemma value_codec_and_int: "value_codec and_int (\<lambda>i. [I_int i])"
  by (simp add: value_codec_def and_int_def)

lemma value_codec_and_bool: "value_codec and_bool (\<lambda>b. [I_bool b])"
  by (simp add: value_codec_def and_bool_def)

lemma value_codec_and_string: "value_codec (and_string max_size len0) (\<lambda>s. [I_string s])"
  by (simp add: value_codec_def and_string_def)

lemma map_write_pairs_out:
  assumes "value_codec key_op kenc" "value_codec val_op venc"
  shows "is_output a \<Longrightarrow>
     map_write_pairs key_op val_op m a
       = (Inr (), a\<lparr>stream := stream a @ pairs_items kenc venc m\<rparr>)"
proof (induction m arbitrary: a)
  case Nil
  then show ?case by (simp add: pairs_items_def ret_def)
next
  case (Cons kv m)
  obtain k v where kv: "kv = (k, v)" by (cases kv)
  let ?a1 = "a\<lparr>stream := stream a @ kenc k\<rparr>"
  let ?a2 = "?a1\<lparr>stream := stream ?a1 @ venc v\<rparr>"
  have k: "key_op k a = (Inr k, ?a1)"
    using assms(1) Cons.prems by (rule value_codec_out)
  have v: "val_op v ?a1 = (Inr v, ?a2)"
    using assms(2) Cons.prems by (intro value_codec_out) simp_all
  have "is_output ?a2" using Cons.prems by simp
  from Cons.IH [OF this] k v show ?case
    by (simp add: kv bnd_def pairs_items_def)
qed

lemma map_read_pairs_in:
  assumes "value_codec key_op kenc" "value_codec val_op venc"
  shows "\<not> is_output b \<Longrightarrow> stream b = pairs_items kenc venc ps @ rest \<Longrightarrow>
     map_read_pairs key_op val_op key0 val0 (length ps) m b
       = (Inr (assign_all ps m), b\<lparr>stream := rest\<rparr>)"
proof (induction ps arbitrary: b m)
  case Nil
  then show ?case by (simp add: pairs_items_def assign_all_def ret_def)
next
  case (Cons kv ps)
  obtain k v where kv: "kv = (k, v)" by (cases kv)
  let ?b1 = "b\<lparr>stream := venc v @ pairs_items kenc venc ps @ rest\<rparr>"
  let ?b2 = "b\<lparr>stream := pairs_items kenc venc ps @ rest\<rparr>"
  have s: "stream b = kenc k @ venc v @ pairs_items kenc venc ps @ rest"
    using Cons.prems(2) by (simp add: kv pairs_items_def)
  have k: "key_op key0 b = (Inr k, ?b1)"
    using assms(1) Cons.prems(1) s by (rule value_codec_in)
  have "val_op val0 ?b1 = (Inr v, ?b1\<lparr>stream := pairs_items kenc venc ps @ rest\<rparr>)"
    using assms(2) Cons.prems(1) by (intro value_codec_in) simp_all
  then have v: "val_op val0 ?b1 = (Inr v, ?b2)" by simp
  have "\<not> is_output ?b2" "stream ?b2 = pairs_items kenc venc ps @ rest"
    using Cons.prems(1) by simp_all
  from Cons.IH [OF this, of "map_assign k v m"] k v show ?case
    by (simp add: kv bnd_def assign_all_def)
qed

lemma set_map_assign_keys: "fst ` set (map_assign k v m) = insert k (fst ` set m)"
proof (induction m)
  case Nil
  then show ?case by simp
next
  case (Cons kv m)
  obtain k' v' where kv: "kv = (k', v')" by (cases kv)
  from Cons.IH show ?case
    unfolding kv by (cases "k < k'"; cases "k = k'") (simp_all add: insert_commute)
qed

lemma map_of_rev_distinct: "distinct (map fst xs) \<Longrightarrow> map_of (rev xs) = map_of xs"
  by (rule map_of_inject_set [THEN iffD2]) (simp_all add: rev_map [symmetric])

lemma is_std_map_assign: "is_std_map m \<Longrightarrow> is_std_map (map_assign k v m)"
proof (induction m)
  case Nil
  then show ?case by (simp add: is_std_map_def)
next
  case (Cons kv m)
  obtain k' v' where kv: "kv = (k', v')" by (cases kv)
  from Cons.prems have tl: "is_std_map m" by (simp add: is_std_map_def)
  from Cons.prems kv have lo: "\<forall>x \<in> fst ` set m. k' < x"
    by (auto simp: is_std_map_def less_le)
  show ?case
  proof (cases "k < k'")
    case True
    with Cons.prems kv show ?thesis by (auto simp: is_std_map_def)
  next
    case False
    show ?thesis
    proof (cases "k = k'")
      case True
      with Cons.prems kv show ?thesis by (simp add: is_std_map_def)
    next
      case ne: False
      with False have gt: "k' < k" by simp
      from Cons.IH [OF tl] have ih: "is_std_map (map_assign k v m)" .
      have "fst ` set (map_assign k v m) = insert k (fst ` set m)"
        by (rule set_map_assign_keys)
      with lo gt have "\<forall>x \<in> fst ` set (map_assign k v m). k' < x" by simp
      with ih False ne kv show ?thesis
        by (auto simp: is_std_map_def less_le)
    qed
  qed
qed

lemma map_of_map_assign: "map_of (map_assign k v m) = (map_of m)(k \<mapsto> v)"
  by (induction m) (auto simp: fun_eq_iff)

lemma is_std_map_assign_all: "is_std_map m \<Longrightarrow> is_std_map (assign_all ps m)"
  unfolding assign_all_def
  by (induction ps arbitrary: m) (auto simp: is_std_map_assign)

lemma map_of_assign_all: "map_of (assign_all ps m) = map_of m ++ map_of (rev ps)"
  unfolding assign_all_def
proof (induction ps arbitrary: m)
  case Nil
  then show ?case by simp
next
  case (Cons kv ps)
  obtain k v where kv: "kv = (k, v)" by (cases kv)
  show ?case
    by (simp add: kv Cons.IH map_of_map_assign map_add_upd_left fun_eq_iff map_add_def
        split: option.splits)
qed

lemma std_map_unique:
  assumes "is_std_map xs" "is_std_map ys" "map_of xs = map_of ys"
  shows "xs = ys"
proof -
  from assms(1,2) have d: "distinct (map fst xs)" "distinct (map fst ys)"
    by (simp_all add: is_std_map_def)
  with assms(3) have set_eq: "set xs = set ys"
    by (simp add: map_of_inject_set)
  then have "set (map fst xs) = set (map fst ys)" by simp
  with assms(1,2) have keys: "map fst xs = map fst ys"
    unfolding is_std_map_def by (blast intro: sorted_distinct_set_unique)
  have "map snd xs = map snd ys"
  proof (rule nth_equalityI)
    show len: "length (map snd xs) = length (map snd ys)"
      using keys by (metis length_map)
    fix i assume "i < length (map snd xs)"
    then have i: "i < length xs" "i < length ys" using len by simp_all
    from keys i have fi: "fst (xs ! i) = fst (ys ! i)"
      by (metis nth_map)
    from i d have "map_of xs (fst (xs ! i)) = Some (snd (xs ! i))"
      "map_of ys (fst (ys ! i)) = Some (snd (ys ! i))"
      by simp_all
    with assms(3) fi have "snd (xs ! i) = snd (ys ! i)" by simp
    with i show "map snd xs ! i = map snd ys ! i" by simp
  qed
  with keys show ?thesis
    by (metis zip_map_fst_snd)
qed

lemma assign_all_std_map:
  assumes "is_std_map m"
  shows "assign_all m [] = m"
proof (rule std_map_unique)
  show "is_std_map (assign_all m [])"
    by (rule is_std_map_assign_all) (simp add: is_std_map_def)
  show "is_std_map m" by (rule assms)
  have "distinct (map fst m)" using assms by (simp add: is_std_map_def)
  then have "map_of (rev m) = map_of m"
    by (simp add: map_of_rev_distinct)
  then show "map_of (assign_all m []) = map_of m"
    by (simp add: map_of_assign_all)
qed

lemma assign_all_order:
  assumes "distinct (map fst ps)" "distinct (map fst qs)" "set ps = set qs"
  shows "assign_all ps [] = assign_all qs []" "set (assign_all ps []) = set ps"
proof -
  have std: "is_std_map (assign_all xs [])" for xs :: "('a \<times> 'b) list"
    by (rule is_std_map_assign_all) (simp add: is_std_map_def)
  have mo: "map_of (assign_all xs []) = map_of xs" if "distinct (map fst xs)"
    for xs :: "('a \<times> 'b) list"
    using that by (simp add: map_of_assign_all map_of_rev_distinct)
  from assms have "map_of ps = map_of qs"
    by (simp add: map_of_inject_set)
  with mo [OF assms(1)] mo [OF assms(2)] show "assign_all ps [] = assign_all qs []"
    by (intro std_map_unique std) simp
  from std [of ps] have "distinct (map fst (assign_all ps []))"
    by (simp add: is_std_map_def)
  with assms(1) mo [OF assms(1)] show "set (assign_all ps []) = set ps"
    by (simp add: map_of_inject_set)
qed

lemma last_value_map_of: "last_value ps k = map_of (rev ps) k"
proof (induction ps)
  case Nil
  then show ?case by simp
next
  case (Cons kv ps)
  obtain k' v where kv: "kv = (k', v)" by (cases kv)
  from Cons.IH show ?case
    by (simp add: kv map_add_def split: option.splits)
qed

lemma assign_all_last_wins:
  "map_of (assign_all ps m) k = (case last_value ps k of Some v \<Rightarrow> Some v | None \<Rightarrow> map_of m k)"
  by (simp add: map_of_assign_all last_value_map_of map_add_def)

lemma and_int_not_OutOfBounds: "fst (and_int x a) \<noteq> Inl OutOfBounds"
  by (simp add: and_int_def split: list.splits item.splits)

lemma and_map_out:
  assumes "value_codec key_op kenc" "value_codec val_op venc" "is_output a"
  shows "and_map key_op val_op key0 val0 m a
    = (Inr m, a\<lparr>stream := stream a @ I_size (length m) # pairs_items kenc venc m\<rparr>)"
proof -
  let ?a1 = "a\<lparr>stream := stream a @ [I_size (length m)]\<rparr>"
  have "is_output ?a1" using assms(3) by simp
  from map_write_pairs_out [OF assms(1,2) this, of m] assms(3) show ?thesis
    by (simp add: and_map_def and_size_def bnd_def ret_def)
qed

lemma and_map_in:
  assumes "value_codec key_op kenc" "value_codec val_op venc" "\<not> is_output b"
    "stream b = I_size (length ps) # pairs_items kenc venc ps @ rest"
  shows "and_map key_op val_op key0 val0 m b = (Inr (assign_all ps m), b\<lparr>stream := rest\<rparr>)"
proof -
  let ?b1 = "b\<lparr>stream := pairs_items kenc venc ps @ rest\<rparr>"
  have "\<not> is_output ?b1" "stream ?b1 = pairs_items kenc venc ps @ rest"
    using assms(3) by simp_all
  from map_read_pairs_in [OF assms(1,2) this, of key0 val0 m] assms(3,4) show ?thesis
    by (simp add: and_map_def and_size_def bnd_def)
qed

lemma Do_from_write:
  assumes "value_codec elem enc"
  shows "is_output a \<Longrightarrow> n = length arr \<Longrightarrow> j \<le> n \<Longrightarrow>
     Do_from elem arr 0 n j a
       = (Inr arr, a\<lparr>stream := stream a @ concat (map enc (drop j arr))\<rparr>)"
proof (induction "n - j" arbitrary: j a)
  case 0
  then show ?case by (subst Do_from.simps) simp
next
  case (Suc d)
  then have jn: "j < n" and jl: "j < length arr" by simp_all
  let ?a1 = "a\<lparr>stream := stream a @ enc (arr ! j)\<rparr>"
  have e: "elem (arr ! j) a = (Inr (arr ! j), ?a1)"
    using assms Suc.prems(1) by (rule value_codec_out)
  have "d = n - Suc j" using Suc.hyps(2) by simp
  moreover have "is_output ?a1" using Suc.prems(1) by simp
  moreover have "Suc j \<le> n" using jn by simp
  ultimately have ih: "Do_from elem arr 0 n (Suc j) ?a1
      = (Inr arr, ?a1\<lparr>stream := stream ?a1 @ concat (map enc (drop (Suc j) arr))\<rparr>)"
    using Suc.hyps(1) Suc.prems(2) by blast
  have d: "drop j arr = arr ! j # drop (Suc j) arr"
    using jl by (simp add: Cons_nth_drop_Suc)
  show ?case
    by (subst Do_from.simps) (simp add: jn jl e ih d)
qed

lemma Do_from_read:
  assumes "value_codec elem enc"
  shows "\<not> is_output b \<Longrightarrow> length arr = length xs \<Longrightarrow> n = length xs \<Longrightarrow> j \<le> n \<Longrightarrow>
     take j arr = take j xs \<Longrightarrow> stream b = concat (map enc (drop j xs)) @ rest \<Longrightarrow>
     Do_from elem arr 0 n j b = (Inr xs, b\<lparr>stream := rest\<rparr>)"
proof (induction "n - j" arbitrary: j arr b)
  case 0
  then have "arr = xs" by simp
  with 0 show ?case by (subst Do_from.simps) simp
next
  case (Suc d)
  then have jn: "j < n" and jl: "j < length arr" and jx: "j < length xs" by simp_all
  let ?s1 = "concat (map enc (drop (Suc j) xs)) @ rest"
  let ?b1 = "b\<lparr>stream := ?s1\<rparr>"
  have "stream b = enc (xs ! j) @ ?s1"
    using Suc.prems(6) jx by (simp add: Cons_nth_drop_Suc [symmetric])
  with assms Suc.prems(1) have e: "elem (arr ! j) b = (Inr (xs ! j), ?b1)"
    by (rule value_codec_in)
  have t: "take (Suc j) (arr[j := xs ! j]) = take (Suc j) xs"
    using Suc.prems(5) jl jx by (simp add: take_Suc_conv_app_nth)
  have "d = n - Suc j" using Suc.hyps(2) by simp
  moreover have "\<not> is_output ?b1" "stream ?b1 = ?s1" using Suc.prems(1) by simp_all
  moreover have "Suc j \<le> n" using jn by simp
  moreover have "length (arr[j := xs ! j]) = length xs" using Suc.prems(2) by simp
  ultimately have ih: "Do_from elem (arr[j := xs ! j]) 0 n (Suc j) ?b1
      = (Inr xs, ?b1\<lparr>stream := rest\<rparr>)"
    using Suc.hyps(1) [where j = "Suc j" and arr = "arr[j := xs ! j]" and b = ?b1] Suc.prems(3) t
    by blast
  show ?case
    by (subst Do_from.simps) (simp add: jn jl e ih)
qed

lemma and_vector_out:
  assumes "value_codec elem enc" "is_output a"
  shows "and_vector max_size dflt size0 elem v a
    = (Inr v, a\<lparr>stream := stream a @ I_size (length v) # concat (map enc v)\<rparr>)"
proof -
  let ?a1 = "a\<lparr>stream := stream a @ [I_size (length v)]\<rparr>"
  have "is_output ?a1" using assms(2) by simp
  from Do_from_write [OF assms(1) this, of "length v" v 0] assms(2) show ?thesis
    by (simp add: and_vector_def and_size_def bnd_def ret_def Do_def vector_subscript_address_def)
qed

lemma and_vector_in:
  assumes "value_codec elem enc" "\<not> is_output b"
    "stream b = I_size (length xs) # concat (map enc xs) @ rest" "length xs \<le> max_size"
  shows "and_vector max_size dflt size0 elem w b = (Inr xs, b\<lparr>stream := rest\<rparr>)"
proof -
  let ?b1 = "b\<lparr>stream := concat (map enc xs) @ rest\<rparr>"
  let ?w1 = "take (length xs) w @ replicate (length xs - length w) dflt"
  have "\<not> is_output ?b1" "stream ?b1 = concat (map enc (drop 0 xs)) @ rest"
    "length ?w1 = length xs"
    using assms(2) by simp_all
  with Do_from_read [OF assms(1), where b = ?b1 and arr = ?w1 and xs = xs and n = "length xs"
      and j = 0 and rest = rest]
  have "Do_from elem ?w1 0 (length xs) 0 ?b1 = (Inr xs, ?b1\<lparr>stream := rest\<rparr>)"
    by simp
  with assms(2-4) show ?thesis
    by (simp add: and_vector_def and_size_def bnd_def lift_def vector_resize_def Do_def
        vector_subscript_address_def)
qed

lemma and_vector_calls_Do_out:
  "is_output a \<Longrightarrow>
     and_vector max_size dflt size0 elem v a
       = Do elem (vector_subscript_address v 0) (length v)
           (a\<lparr>stream := stream a @ [I_size (length v)]\<rparr>)"
  by (simp add: and_vector_def and_size_def bnd_def ret_def)

lemma and_vector_calls_Do_in:
  "\<not> is_output b \<Longrightarrow> stream b = I_size m # rest \<Longrightarrow> m \<le> max_size \<Longrightarrow>
     and_vector max_size dflt size0 elem w b
       = Do elem (vector_subscript_address (take m w @ replicate (m - length w) dflt) 0) m
           (b\<lparr>stream := rest\<rparr>)"
  by (simp add: and_vector_def and_size_def bnd_def lift_def vector_resize_def)

text \<open>
  Claim C10. The vector operator reaches only elements at indices below the written or
  decoded length: with an element operator that does not itself run out of bounds, the
  result is never the \<open>OutOfBounds\<close> fault, in either direction and on every stream,
  also one that ends early. With an element operator for plain values these elements
  are all written, after the length, and read back. For the empty vector (and for a
  decoded length 0) the element operator is not called at all, whatever it is: writing
  appends the length 0 only, and reading gives back the empty vector. In every case,
  the empty vector included, what the operator does after the length (and the resize)
  is the call of \<open>Do\<close> with the address of element 0 and the length. For the empty
  vector that address is the past-the-end pointer of the empty array, through which
  \<open>Do\<close> with a length other than 0 would run out of bounds; \<open>Do\<close> with the length 0
  returns at once.
\<close>

theorem vector_access_within_length:
  "((\<forall>x a. fst (elem x a) \<noteq> Inl OutOfBounds) \<longrightarrow>
       fst (and_vector max_size dflt size0 elem v a) \<noteq> Inl OutOfBounds)
   \<and> (value_codec elem enc \<and> is_output a \<longrightarrow>
       and_vector max_size dflt size0 elem v a
         = (Inr v, a\<lparr>stream := stream a @ I_size (length v) # concat (map enc v)\<rparr>))
   \<and> (value_codec elem enc \<and> \<not> is_output b
       \<and> stream b = I_size (length xs) # concat (map enc xs) @ rest \<and> length xs \<le> max_size \<longrightarrow>
       and_vector max_size dflt size0 elem w b = (Inr xs, b\<lparr>stream := rest\<rparr>))
   \<and> (is_output a \<longrightarrow>
       and_vector max_size dflt size0 elem [] a = (Inr [], a\<lparr>stream := stream a @ [I_size 0]\<rparr>))
   \<and> (\<not> is_output b \<and> stream b = I_size 0 # rest \<longrightarrow>
       and_vector max_size dflt size0 elem w b = (Inr [], b\<lparr>stream := rest\<rparr>))
   \<and> (is_output a \<longrightarrow>
       and_vector max_size dflt size0 elem v a
         = Do elem (vector_subscript_address v 0) (length v)
             (a\<lparr>stream := stream a @ [I_size (length v)]\<rparr>))
   \<and> (\<not> is_output b \<and> stream b = I_size m # rest \<and> m \<le> max_size \<longrightarrow>
       and_vector max_size dflt size0 elem w b
         = Do elem (vector_subscript_address (take m w @ replicate (m - length w) dflt) 0) m
             (b\<lparr>stream := rest\<rparr>))
   \<and> Do elem (vector_subscript_address [] 0) 0 a = (Inr [], a)
   \<and> Do elem (vector_subscript_address [] 0) (Suc n) a = (Inl OutOfBounds, a)"
proof (intro conjI impI)
  assume "\<forall>x a. fst (elem x a) \<noteq> Inl OutOfBounds"
  then show "fst (and_vector max_size dflt size0 elem v a) \<noteq> Inl OutOfBounds"
    by (rule and_vector_in_bounds)
next
  assume "value_codec elem enc \<and> is_output a"
  then show "and_vector max_size dflt size0 elem v a
         = (Inr v, a\<lparr>stream := stream a @ I_size (length v) # concat (map enc v)\<rparr>)"
    using and_vector_out [of elem enc a max_size dflt size0 v] by blast
next
  assume "value_codec elem enc \<and> \<not> is_output b
       \<and> stream b = I_size (length xs) # concat (map enc xs) @ rest \<and> length xs \<le> max_size"
  then show "and_vector max_size dflt size0 elem w b = (Inr xs, b\<lparr>stream := rest\<rparr>)"
    using and_vector_in [of elem enc b xs rest max_size dflt size0 w] by blast
next
  assume "is_output a"
  then show "and_vector max_size dflt size0 elem [] a
      = (Inr [], a\<lparr>stream := stream a @ [I_size 0]\<rparr>)"
    by (rule and_vector_empty_out)
next
  assume "\<not> is_output b \<and> stream b = I_size 0 # rest"
  then show "and_vector max_size dflt size0 elem w b = (Inr [], b\<lparr>stream := rest\<rparr>)"
    using and_vector_empty_in [of b rest max_size dflt size0 elem w] by blast
next
  assume "is_output a"
  then show "and_vector max_size dflt size0 elem v a
         = Do elem (vector_subscript_address v 0) (length v)
             (a\<lparr>stream := stream a @ [I_size (length v)]\<rparr>)"
    by (rule and_vector_calls_Do_out)
next
  assume "\<not> is_output b \<and> stream b = I_size m # rest \<and> m \<le> max_size"
  then show "and_vector max_size dflt size0 elem w b
         = Do elem (vector_subscript_address (take m w @ replicate (m - length w) dflt) 0) m
             (b\<lparr>stream := rest\<rparr>)"
    using and_vector_calls_Do_in [of b m rest max_size dflt size0 elem w] by blast
next
  show "Do elem (vector_subscript_address [] 0) 0 a = (Inr [], a)"
    by (simp add: Do_zero vector_subscript_address_def)
next
  show "Do elem (vector_subscript_address [] 0) (Suc n) a = (Inl OutOfBounds, a)"
    by (rule Do_past_the_end)
qed

theorem vector_access_within_length_witness:
  "fst (and_vector 1000 0 5 and_int [7, 8, 9] (archive_init False [I_size 2, I_int 7] ()))
     \<noteq> Inl OutOfBounds
   \<and> and_vector 1000 0 5 and_int [7, 8, 9] (archive_init True [] ())
       = (Inr [7, 8, 9], archive_init True [I_size 3, I_int 7, I_int 8, I_int 9] ())
   \<and> and_vector 1000 0 5 and_int [1]
         (archive_init False [I_size 3, I_int 7, I_int 8, I_int 9, I_int 4] ())
       = (Inr [7, 8, 9], archive_init False [I_int 4] ())
   \<and> and_vector 1000 0 5 and_int [] (archive_init True [] ())
       = (Inr [], archive_init True [I_size 0] ())
   \<and> and_vector 1000 0 5 and_int [7, 8, 9] (archive_init False [I_size 0, I_int 4] ())
       = (Inr [], archive_init False [I_int 4] ())
   \<and> and_vector 1000 0 5 and_int [] (archive_init True [] ())
       = Do and_int (vector_subscript_address [] 0) 0 (archive_init True [I_size 0] ())
   \<and> and_vector 1000 0 5 and_int [7, 8, 9] (archive_init False [I_size 0, I_int 4] ())
       = Do and_int (vector_subscript_address [] 0) 0 (archive_init False [I_int 4] ())"
proof -
  let ?a = "archive_init True [] ()"
  let ?b = "archive_init False [I_size 0, I_int 4] ()"
  let ?c = "archive_init False [I_size 3, I_int 7, I_int 8, I_int 9, I_int 4] ()"
  let ?t = "archive_init False [I_size 2, I_int 7] ()"
  let ?enc = "\<lambda>i. [I_int i]"
  have h1: "\<forall>x (a :: unit archive). fst (and_int x a) \<noteq> Inl OutOfBounds"
    by (simp add: and_int_not_OutOfBounds)
  have vc: "value_codec (and_int :: int \<Rightarrow> (int, unit) op) ?enc"
    by (rule value_codec_and_int)
  have h2: "is_output ?a" by (simp add: archive_init_def)
  have h3: "\<not> is_output ?b \<and> stream ?b = I_size 0 # [I_int 4]"
    by (simp add: archive_init_def)
  have h4: "\<not> is_output ?c
      \<and> stream ?c = I_size (length [7, 8, 9 :: int]) # concat (map ?enc [7, 8, 9]) @ [I_int 4]
      \<and> length [7, 8, 9 :: int] \<le> 1000"
    by (simp add: archive_init_def)
  have e0: "?a\<lparr>stream := stream ?a @ I_size (length [7, 8, 9 :: int]) # concat (map ?enc [7, 8, 9])\<rparr>
      = archive_init True [I_size 3, I_int 7, I_int 8, I_int 9] ()"
    by (simp add: archive_init_def)
  have e1: "?a\<lparr>stream := stream ?a @ [I_size 0]\<rparr> = archive_init True [I_size 0] ()"
    by (simp add: archive_init_def)
  have e2: "?b\<lparr>stream := [I_int 4]\<rparr> = archive_init False [I_int 4] ()"
    by (simp add: archive_init_def)
  have e3: "?c\<lparr>stream := [I_int 4]\<rparr> = archive_init False [I_int 4] ()"
    by (simp add: archive_init_def)
  from h1 vector_access_within_length [where elem = and_int and max_size = 1000 and dflt = 0
      and ?size0.0 = 5 and v = "[7, 8, 9]" and a = ?t]
  have A: "fst (and_vector 1000 0 5 and_int [7, 8, 9] ?t) \<noteq> Inl OutOfBounds"
    by blast
  from vc h2 vector_access_within_length [where elem = and_int and enc = ?enc
      and max_size = 1000 and dflt = 0 and ?size0.0 = 5 and v = "[7, 8, 9]" and a = ?a]
  have B: "and_vector 1000 0 5 and_int [7, 8, 9] ?a
      = (Inr [7, 8, 9], archive_init True [I_size 3, I_int 7, I_int 8, I_int 9] ())"
    unfolding e0 [symmetric] by blast
  from vc h4 vector_access_within_length [where elem = and_int and enc = ?enc
      and max_size = 1000 and dflt = 0 and ?size0.0 = 5 and b = ?c and xs = "[7, 8, 9]"
      and rest = "[I_int 4]" and w = "[1]"]
  have C: "and_vector 1000 0 5 and_int [1] ?c = (Inr [7, 8, 9], archive_init False [I_int 4] ())"
    unfolding e3 [symmetric] by blast
  from h2 vector_access_within_length [where elem = and_int and max_size = 1000 and dflt = 0
      and ?size0.0 = 5 and a = ?a]
  have D: "and_vector 1000 0 5 and_int [] ?a = (Inr [], archive_init True [I_size 0] ())"
    unfolding e1 [symmetric] by blast
  from h3 vector_access_within_length [where elem = and_int and max_size = 1000 and dflt = 0
      and ?size0.0 = 5 and b = ?b and rest = "[I_int 4]" and w = "[7, 8, 9]"]
  have E: "and_vector 1000 0 5 and_int [7, 8, 9] ?b = (Inr [], archive_init False [I_int 4] ())"
    unfolding e2 [symmetric] by blast
  have h5: "\<not> is_output ?b \<and> stream ?b = I_size 0 # [I_int 4] \<and> (0 :: nat) \<le> 1000"
    by (simp add: archive_init_def)
  from h2 vector_access_within_length [where elem = and_int and max_size = 1000 and dflt = 0
      and ?size0.0 = 5 and v = "[]" and a = ?a]
  have F: "and_vector 1000 0 5 and_int [] ?a
      = Do and_int (vector_subscript_address [] 0) (length ([] :: int list))
          (?a\<lparr>stream := stream ?a @ [I_size (length ([] :: int list))]\<rparr>)"
    by blast
  from h5 vector_access_within_length [where elem = and_int and max_size = 1000 and dflt = 0
      and ?size0.0 = 5 and b = ?b and m = 0 and rest = "[I_int 4]" and w = "[7, 8, 9]"]
  have G: "and_vector 1000 0 5 and_int [7, 8, 9] ?b
      = Do and_int (vector_subscript_address (take 0 [7, 8, 9] @ replicate (0 - length [7, 8, 9 :: int]) 0) 0) 0
          (?b\<lparr>stream := [I_int 4]\<rparr>)"
    by blast
  from F have F': "and_vector 1000 0 5 and_int [] ?a
      = Do and_int (vector_subscript_address [] 0) 0 (archive_init True [I_size 0] ())"
    unfolding e1 [symmetric] by simp
  from G have G': "and_vector 1000 0 5 and_int [7, 8, 9] ?b
      = Do and_int (vector_subscript_address [] 0) 0 (archive_init False [I_int 4] ())"
    unfolding e2 [symmetric] by simp
  from A B C D E F' G' show ?thesis by blast
qed

text \<open>
  A vector read from a stream that ends after the first of two elements: the read of the
  second element is not served and leaves the element as \<^verbatim>\<open>resize\<close> made it; nothing
  is raised.
\<close>

lemma vector_from_truncated_stream:
  "and_vector 1000 0 5 and_int [] (archive_init False [I_size 2, I_int 7] ())
     = (Inr [7, 0], archive_init False [] ())"
  by (simp add: and_vector_def and_size_def and_int_def bnd_def lift_def vector_resize_def
      Do_def vector_subscript_address_def Do_from.simps archive_init_def numeral_2_eq_2)

text \<open>
  Claim C7. With key and value operators that archive plain values: writing a map emits
  its length and then its pairs in iteration order; reading a length and that many pairs
  assigns them one by one to the destination, so that afterwards each key that occurs in
  the pairs has the value of the last pair with that key, and each other key what the
  destination had; hence reading what was written of a map into an empty destination
  gives the map back; and the map built from pairs with distinct keys, so also what is
  written and read back, is the same for every order of insertion and has exactly these
  pairs.
\<close>

theorem map_round_trip:
  "value_codec key_op kenc \<and> value_codec val_op venc \<longrightarrow>
     (is_output a \<longrightarrow>
        and_map key_op val_op key0 val0 m a
          = (Inr m, a\<lparr>stream := stream a @ I_size (length m) # pairs_items kenc venc m\<rparr>))
   \<and> (\<not> is_output b \<and> stream b = I_size (length ps) # pairs_items kenc venc ps @ rest
        \<and> is_std_map m0 \<longrightarrow>
        (\<exists>r. and_map key_op val_op key0 val0 m0 b = (Inr r, b\<lparr>stream := rest\<rparr>)
           \<and> is_std_map r
           \<and> (\<forall>k. map_of r k
                 = (case last_value ps k of Some v \<Rightarrow> Some v | None \<Rightarrow> map_of m0 k))))
   \<and> (is_std_map m \<and> \<not> is_output c
        \<and> stream c = I_size (length m) # pairs_items kenc venc m @ rest' \<longrightarrow>
        and_map key_op val_op key0 val0 [] c = (Inr m, c\<lparr>stream := rest'\<rparr>))
   \<and> (distinct (map fst ps') \<and> distinct (map fst qs) \<and> set ps' = set qs \<longrightarrow>
        assign_all ps' [] = assign_all qs [] \<and> set (assign_all ps' []) = set ps'
        \<and> is_std_map (assign_all ps' []))"
proof (intro impI conjI)
  assume vc: "value_codec key_op kenc \<and> value_codec val_op venc"
  {
    assume "is_output a"
    with vc show "and_map key_op val_op key0 val0 m a
          = (Inr m, a\<lparr>stream := stream a @ I_size (length m) # pairs_items kenc venc m\<rparr>)"
      by (intro and_map_out) simp_all
  }
  {
    assume h: "\<not> is_output b \<and> stream b = I_size (length ps) # pairs_items kenc venc ps @ rest
        \<and> is_std_map m0"
    with vc have "and_map key_op val_op key0 val0 m0 b
        = (Inr (assign_all ps m0), b\<lparr>stream := rest\<rparr>)"
      using and_map_in [of key_op kenc val_op venc b ps rest key0 val0 m0] by blast
    moreover from h have "is_std_map (assign_all ps m0)"
      by (simp add: is_std_map_assign_all)
    moreover have "\<forall>k. map_of (assign_all ps m0) k
        = (case last_value ps k of Some v \<Rightarrow> Some v | None \<Rightarrow> map_of m0 k)"
      by (simp add: assign_all_last_wins)
    ultimately show "\<exists>r. and_map key_op val_op key0 val0 m0 b = (Inr r, b\<lparr>stream := rest\<rparr>)
           \<and> is_std_map r
           \<and> (\<forall>k. map_of r k
                 = (case last_value ps k of Some v \<Rightarrow> Some v | None \<Rightarrow> map_of m0 k))"
      by blast
  }
  {
    assume h: "is_std_map m \<and> \<not> is_output c
        \<and> stream c = I_size (length m) # pairs_items kenc venc m @ rest'"
    with vc have "and_map key_op val_op key0 val0 [] c
        = (Inr (assign_all m []), c\<lparr>stream := rest'\<rparr>)"
      using and_map_in [of key_op kenc val_op venc c m rest' key0 val0 "[]"] by blast
    with h show "and_map key_op val_op key0 val0 [] c = (Inr m, c\<lparr>stream := rest'\<rparr>)"
      by (simp add: assign_all_std_map)
  }
  {
    assume h: "distinct (map fst ps') \<and> distinct (map fst qs) \<and> set ps' = set qs"
    then show "assign_all ps' [] = assign_all qs []"
      using assign_all_order(1) [of ps' qs] by blast
    from h show "set (assign_all ps' []) = set ps'"
      using assign_all_order(2) [of ps' qs] by blast
    show "is_std_map (assign_all ps' [])"
      by (rule is_std_map_assign_all) (simp add: is_std_map_def)
  }
qed

theorem map_round_trip_witness:
  "and_map and_int and_bool 0 False [(1, True), (5, False)] (archive_init True [] ())
     = (Inr [(1, True), (5, False)],
        archive_init True [I_size 2, I_int 1, I_bool True, I_int 5, I_bool False] ())
   \<and> (\<exists>r. and_map and_int and_bool 0 False [(5, True), (9, True)]
          (archive_init False
             [I_size 3, I_int 1, I_bool True, I_int 5, I_bool False, I_int 1, I_bool False] ())
          = (Inr r, archive_init False [] ())
        \<and> is_std_map r
        \<and> map_of r 1 = Some False \<and> map_of r 5 = Some False \<and> map_of r 9 = Some True
        \<and> map_of r 2 = None)
   \<and> and_map and_int and_bool 0 False [(5, True), (9, True)]
        (archive_init False
           [I_size 3, I_int 1, I_bool True, I_int 5, I_bool False, I_int 1, I_bool False] ())
     = (Inr [(1, False), (5, False), (9, True)], archive_init False [] ())
   \<and> and_map and_int and_bool 0 False []
        (archive_init False [I_size 2, I_int 1, I_bool True, I_int 5, I_bool False] ())
     = (Inr [(1, True), (5, False)], archive_init False [] ())
   \<and> assign_all [(5, False), (1 :: int, True)] [] = assign_all [(1, True), (5, False)] []
   \<and> set (assign_all [(5, False), (1 :: int, True)] []) = set [(5, False), (1, True)]"
proof -
  let ?m = "[(1 :: int, True), (5, False)]"
  let ?ps = "[(1 :: int, True), (5, False), (1, False)]"
  let ?dst = "[(5 :: int, True), (9, True)]"
  let ?kenc = "\<lambda>i. [I_int i]"
  let ?venc = "\<lambda>b. [I_bool b]"
  let ?a = "archive_init True [] ()"
  let ?s = "[I_size 2, I_int 1, I_bool True, I_int 5, I_bool False]"
  let ?c = "archive_init False ?s ()"
  let ?b = "archive_init False
      [I_size 3, I_int 1, I_bool True, I_int 5, I_bool False, I_int 1, I_bool False] ()"
  have vc: "value_codec (and_int :: int \<Rightarrow> (int, unit) op) ?kenc
      \<and> value_codec (and_bool :: bool \<Rightarrow> (bool, unit) op) ?venc"
    by (simp add: value_codec_and_int value_codec_and_bool)
  have ha: "is_output ?a" by (simp add: archive_init_def)
  have hb: "\<not> is_output ?b \<and> stream ?b = I_size (length ?ps) # pairs_items ?kenc ?venc ?ps @ []
      \<and> is_std_map ?dst"
    by (simp add: archive_init_def is_std_map_def pairs_items_def)
  have hc: "is_std_map ?m \<and> \<not> is_output ?c
      \<and> stream ?c = I_size (length ?m) # pairs_items ?kenc ?venc ?m @ []"
    by (simp add: archive_init_def is_std_map_def pairs_items_def)
  have hd: "distinct (map fst [(5, False), (1 :: int, True)]) \<and> distinct (map fst ?m)
      \<and> set [(5, False), (1 :: int, True)] = set ?m"
    by auto
  have e1: "?a\<lparr>stream := stream ?a @ I_size (length ?m) # pairs_items ?kenc ?venc ?m\<rparr>
      = archive_init True ?s ()"
    by (simp add: archive_init_def pairs_items_def)
  have e2: "?c\<lparr>stream := []\<rparr> = archive_init False [] ()"
    by (simp add: archive_init_def)
  have e3: "?b\<lparr>stream := []\<rparr> = archive_init False [] ()"
    by (simp add: archive_init_def)
  note inst = map_round_trip [where key_op = and_int and kenc = ?kenc
      and val_op = and_bool and venc = ?venc and a = ?a and ?key0.0 = 0
      and ?val0.0 = False and m = ?m and b = ?b and ps = ?ps and rest = "[]" and ?m0.0 = ?dst
      and c = ?c and rest' = "[]" and ps' = "[(5, False), (1, True)]" and qs = ?m]
  from inst vc ha have A: "and_map and_int and_bool 0 False ?m ?a = (Inr ?m, archive_init True ?s ())"
    unfolding e1 by blast
  from inst vc hb obtain r where r: "and_map and_int and_bool 0 False ?dst ?b = (Inr r, ?b\<lparr>stream := []\<rparr>)"
      "is_std_map r"
      "\<forall>k. map_of r k = (case last_value ?ps k of Some v \<Rightarrow> Some v | None \<Rightarrow> map_of ?dst k)"
    by blast
  from r(3) have v: "map_of r 1 = Some False \<and> map_of r 5 = Some False \<and> map_of r 9 = Some True
      \<and> map_of r 2 = None"
    by simp
  from r(1,2) v have B: "\<exists>r. and_map and_int and_bool 0 False ?dst ?b = (Inr r, archive_init False [] ())
        \<and> is_std_map r
        \<and> map_of r 1 = Some False \<and> map_of r 5 = Some False \<and> map_of r 9 = Some True
        \<and> map_of r 2 = None"
    unfolding e3 by blast
  have B': "and_map and_int and_bool 0 False ?dst ?b
      = (Inr [(1, False), (5, False), (9, True)], archive_init False [] ())"
    by (simp add: and_map_def and_size_def and_int_def and_bool_def bnd_def ret_def
        archive_init_def eval_nat_numeral)
  from inst vc hc have C: "and_map and_int and_bool 0 False [] ?c = (Inr ?m, archive_init False [] ())"
    unfolding e2 by blast
  from inst vc hd have D: "assign_all [(5, False), (1 :: int, True)] [] = assign_all ?m []
      \<and> set (assign_all [(5, False), (1 :: int, True)] []) = set [(5, False), (1, True)]"
    by blast
  from A B B' C D show ?thesis by blast
qed

section \<open>Properties of the binary and the text codec\<close>

lemma le_nat_le_bytes: "v < 256 ^ n \<Longrightarrow> le_nat (le_bytes n v) = v"
proof (induction n arbitrary: v)
  case 0
  then show ?case by simp
next
  case (Suc n)
  from Suc.prems have "v div 256 < 256 ^ n"
    by (simp add: less_mult_imp_div_less mult.commute)
  from Suc.IH [OF this] show ?case by simp
qed

lemma istream_read_exact:
  "length bs = n \<Longrightarrow> length dest = n \<Longrightarrow>
     istream_read n dest \<lparr>chars = bs @ rest, failed = False\<rparr> = (bs, \<lparr>chars = rest, failed = False\<rparr>)"
  by (simp add: istream_read_def)

lemma Read_word_round_trip:
  assumes "unat w < 256 ^ sz"
  shows "Read_word sz old \<lparr>chars = le_bytes sz (unat w) @ rest, failed = False\<rparr>
       = (w, \<lparr>chars = rest, failed = False\<rparr>)"
  using assms by (simp add: Read_word_def istream_read_exact le_nat_le_bytes)

lemma unat_bound_8: "unat (w :: 8 word) < 256 ^ Suc 0"
  using unsigned_less [of w, where ?'a = nat] by simp

lemma unat_bound_16: "unat (w :: 16 word) < 256 ^ 2"
  using unsigned_less [of w, where ?'a = nat] by simp

lemma unat_bound_32: "unat (w :: 32 word) < 256 ^ 4"
  using unsigned_less [of w, where ?'a = nat] by simp

lemma unat_bound_64: "unat (w :: 64 word) < 256 ^ 8"
  using unsigned_less [of w, where ?'a = nat] by simp

lemma Read_round_trip:
  assumes "same_kind old x"
  shows "Read old \<lparr>chars = object_repr x @ rest, failed = False\<rparr>
       = (x, \<lparr>chars = rest, failed = False\<rparr>)"
proof (cases x)
  case (Double_val w)
  with assms obtain w0 where "old = Double_val w0" by (cases old) simp_all
  with Double_val show ?thesis
    by (simp add: Read_word_round_trip [OF unat_bound_64] del: le_bytes.simps)
next
  case (Int_val w)
  with assms obtain w0 where "old = Int_val w0" by (cases old) simp_all
  with Int_val show ?thesis
    by (simp add: Read_word_round_trip [OF unat_bound_32] del: le_bytes.simps)
next
  case (Short_val w)
  with assms obtain w0 where "old = Short_val w0" by (cases old) simp_all
  with Short_val show ?thesis
    by (simp add: Read_word_round_trip [OF unat_bound_16] del: le_bytes.simps)
next
  case (Long_val w)
  with assms obtain w0 where "old = Long_val w0" by (cases old) simp_all
  with Long_val show ?thesis
    by (simp add: Read_word_round_trip [OF unat_bound_64] del: le_bytes.simps)
next
  case (Size_t_val w)
  with assms obtain w0 where "old = Size_t_val w0" by (cases old) simp_all
  with Size_t_val show ?thesis
    by (simp add: Read_word_round_trip [OF unat_bound_64] del: le_bytes.simps)
next
  case (UChar_val w)
  with assms obtain w0 where "old = UChar_val w0" by (cases old) simp_all
  with UChar_val show ?thesis
    by (simp add: Read_word_round_trip [OF unat_bound_8] del: le_bytes.simps)
next
  case (Bool_val b)
  with assms obtain b0 where "old = Bool_val b0" by (cases old) simp_all
  with Bool_val show ?thesis
    by (simp add: istream_read_def)
qed

lemma binary_out_scalar_flushed:
  assumes "buffer_ok a"
  shows "\<exists>a1 a2. binary_out_scalar x a = Inr a1 \<and> FlushBuffer a1 = Inr a2
            \<and> ostream a2 = written a @ object_repr x \<and> ptr a2 = 0 \<and> buffer_ok a2"
proof -
  have "length (object_repr x) \<le> BUFFERSIZE"
    using length_object_repr [of x] by (simp add: BUFFERSIZE_def)
  from Write_step [OF assms this] obtain a1 where
    a1: "Write (object_repr x) a = Inr a1" "buffer_ok a1" "written a1 = written a @ object_repr x"
    by blast
  from FlushBuffer_written [OF a1(2)] a1 show ?thesis
    by (auto simp: binary_out_scalar_def)
qed

lemma sint_of_nat_32: "n < 2 ^ 31 \<Longrightarrow> sint (of_nat n :: 32 word) = int n"
proof -
  assume n: "n < 2 ^ 31"
  have "(of_nat n :: 32 word) = word_of_int (int n)" by simp
  then have "sint (of_nat n :: 32 word) = (int n + 2 ^ 31) mod 2 ^ 32 - 2 ^ 31"
    by (simp only: int_word_sint) simp
  moreover from n have "int n < 2 ^ 31" by (metis of_nat_less_iff of_nat_numeral of_nat_power)
  then have "(int n + 2 ^ 31) mod 2 ^ 32 = int n + 2 ^ 31"
    by (intro mod_pos_pos_trivial) simp_all
  ultimately show ?thesis by simp
qed

lemma unat_of_nat_32: "n < 2 ^ 32 \<Longrightarrow> unat (of_nat n :: 32 word) = n"
  by (simp add: unat_of_nat)

lemma of_nat_32_eq_0: "n < 2 ^ 32 \<Longrightarrow> (of_nat n :: 32 word) = 0 \<longleftrightarrow> n = 0"
proof
  assume n: "n < 2 ^ 32" and z: "(of_nat n :: 32 word) = 0"
  from z have "unat (of_nat n :: 32 word) = 0" by simp
  with unat_of_nat_32 [OF n] show "n = 0" by simp
next
  assume "n = 0"
  then show "(of_nat n :: 32 word) = 0" by simp
qed

lemma of_int_sint_same: "of_int (sint w) = (w :: 'a::len word)"
  by simp

lemma of_int_uint_same: "of_int (uint w) = (w :: 'a::len word)"
  by simp

lemma of_nat_unat_same: "of_nat (unat w) = (w :: 'a::len word)"
  by simp

lemma size_t_of_negative:
  assumes "sint (len :: 32 word) < 0"
  shows "2 ^ 64 - 2 ^ 31 \<le> size_t_of_int (sint len)"
proof -
  have lo: "- (2 ^ 31) \<le> sint len" using sint_ge [of len] by simp
  have "sint len mod 2 ^ 64 = sint len + 2 ^ 64"
  proof -
    have "(sint len + 2 ^ 64) mod 2 ^ 64 = sint len + 2 ^ 64"
      using lo assms by (intro mod_pos_pos_trivial) simp_all
    then show ?thesis by simp
  qed
  with lo show ?thesis
    by (simp add: size_t_of_int_def)
qed

lemma sint_succ_32:
  assumes "Suc n < 2 ^ 31"
  shows "sint ((of_nat n :: 32 word) + 1) = int n + 1"
proof -
  have "(of_nat n :: 32 word) + 1 = of_nat (Suc n)" by simp
  then have "sint ((of_nat n :: 32 word) + 1) = int (Suc n)"
    using sint_of_nat_32 [OF assms] by (simp only:)
  then show ?thesis by simp
qed

lemma size_t_of_length: "size_t_of_int (int n) = n" if "n < 2 ^ 64"
proof -
  from that have "int n < 2 ^ 64"
    by (metis of_nat_less_iff of_nat_numeral of_nat_power)
  then have "int n mod 2 ^ 64 = int n"
    by (intro mod_pos_pos_trivial) simp_all
  then show ?thesis by (simp add: size_t_of_int_def)
qed

lemma small_length:
  assumes "n < (2 :: nat) ^ 31"
  shows "n < 2 ^ 32" "n < 2 ^ 64"
proof -
  have a: "(2 :: nat) ^ 31 \<le> 2 ^ 32" by (rule power_increasing) simp_all
  have b: "(2 :: nat) ^ 31 \<le> 2 ^ 64" by (rule power_increasing) simp_all
  from assms a show "n < 2 ^ 32" by (rule less_le_trans)
  from assms b show "n < 2 ^ 64" by (rule less_le_trans)
qed

lemma binary_out_string_flushed:
  assumes ok: "buffer_ok a" and len: "length str < 2 ^ 31"
  shows "\<exists>a'. binary_out_string str a = Inr a'
            \<and> ostream a' = written a @ le_bytes 4 (length str) @ str
            \<and> ptr a' = 0 \<and> buffer_ok a'"
proof -
  let ?len = "of_nat (length str) :: 32 word"
  have repr: "object_repr (Int_val ?len) = le_bytes 4 (length str)"
    using unat_of_nat_32 [OF small_length(1) [OF len]] by (simp del: le_bytes.simps)
  from binary_out_scalar_flushed [OF ok, of "Int_val ?len"] obtain a1 a2 where
    a: "binary_out_scalar (Int_val ?len) a = Inr a1" "FlushBuffer a1 = Inr a2"
       "ostream a2 = written a @ le_bytes 4 (length str)" "ptr a2 = 0" "buffer_ok a2"
    unfolding repr by blast
  show ?thesis
  proof (cases "length str = 0")
    case True
    then have "?len = 0" by simp
    with a True show ?thesis
      by (simp add: binary_out_string_def del: le_bytes.simps)
  next
    case False
    with of_nat_32_eq_0 [OF small_length(1) [OF len]] have nz: "?len \<noteq> 0" by simp
    have "nat (sint ?len) = length str"
      using sint_of_nat_32 [OF len] by simp
    with a nz show ?thesis
      by (simp add: binary_out_string_def buffer_ok_def del: le_bytes.simps)
  qed
qed

lemma binary_in_string_round_trip:
  assumes len: "length str < 2 ^ 31" and mx: "length str \<le> max_size"
  shows "binary_in_string max_size len0 str0
           \<lparr>chars = le_bytes 4 (length str) @ str @ rest, failed = False\<rparr>
         = (Inr str, \<lparr>chars = rest, failed = False\<rparr>)"
proof -
  let ?len = "of_nat (length str) :: 32 word"
  have u: "unat ?len = length str"
    by (rule unat_of_nat_32 [OF small_length(1) [OF len]])
  have "Read_word 4 len0 \<lparr>chars = le_bytes 4 (unat ?len) @ str @ rest, failed = False\<rparr>
      = (?len, \<lparr>chars = str @ rest, failed = False\<rparr>)"
    by (rule Read_word_round_trip [OF unat_bound_32])
  then have rd: "Read_word 4 len0 \<lparr>chars = le_bytes 4 (length str) @ str @ rest, failed = False\<rparr>
      = (?len, \<lparr>chars = str @ rest, failed = False\<rparr>)"
    unfolding u .
  have sz: "size_t_of_int (sint ?len) = length str"
    using sint_of_nat_32 [OF len] size_t_of_length [OF small_length(2) [OF len]] by simp
  let ?str1 = "take (length str) str0 @ replicate (length str - length str0) (CHR 0x00)"
  have rs: "string_resize max_size (length str) str0 = Inr ?str1"
    using mx by (simp add: string_resize_def)
  have n: "nat (sint ?len) = length str"
    using sint_of_nat_32 [OF len] by simp
  have l1: "length ?str1 = length str" by simp
  have rb: "istream_read (length str) ?str1 \<lparr>chars = str @ rest, failed = False\<rparr>
      = (str, \<lparr>chars = rest, failed = False\<rparr>)"
    by (rule istream_read_exact [OF refl l1])
  show ?thesis
  proof (cases "length str = 0")
    case True
    then have "?len = 0" by simp
    with True rd rs sz show ?thesis
      by (simp add: binary_in_string_def del: le_bytes.simps)
  next
    case False
    with of_nat_32_eq_0 [OF small_length(1) [OF len]] have nz: "?len \<noteq> 0" by simp
    from rd rs sz n rb nz show ?thesis
      by (simp add: binary_in_string_def del: le_bytes.simps)
  qed
qed

lemma resize_negative:
  assumes neg: "sint (len :: 32 word) < 0" and mx: "max_size < 2 ^ 64 - 2 ^ 31"
  shows "string_resize max_size (size_t_of_int (sint len)) str = Inl LengthError"
proof -
  from mx size_t_of_negative [OF neg] have "max_size < size_t_of_int (sint len)"
    by (rule less_le_trans)
  then show ?thesis by (simp add: string_resize_def)
qed

lemma binary_in_string_negative:
  assumes neg: "sint (len :: 32 word) < 0" and mx: "max_size < 2 ^ 64 - 2 ^ 31"
  shows "binary_in_string max_size len0 str0
           \<lparr>chars = le_bytes 4 (unat len) @ rest, failed = False\<rparr>
         = (Inl LengthError, \<lparr>chars = rest, failed = False\<rparr>)"
proof -
  have rd: "Read_word 4 len0 \<lparr>chars = le_bytes 4 (unat len) @ rest, failed = False\<rparr>
      = (len, \<lparr>chars = rest, failed = False\<rparr>)"
    by (rule Read_word_round_trip [OF unat_bound_32])
  from rd resize_negative [OF neg mx] show ?thesis
    by (simp add: binary_in_string_def del: le_bytes.simps)
qed

lemma digit_char_props:
  fixes d :: nat
  assumes "d < 10"
  shows "isdigit (char_of (48 + d))" "(of_char (char_of (48 + d)) :: nat) - 48 = d"
    "\<not> isspace (char_of (48 + d))" "char_of (48 + d) \<noteq> CHR ''-''"
    "char_of (48 + d) \<noteq> CHR ''+''"
proof -
  from assms have v: "(of_char (char_of (48 + d)) :: nat) = 48 + d" by simp
  from v assms show "isdigit (char_of (48 + d))" by (simp add: isdigit_def)
  from v show "(of_char (char_of (48 + d)) :: nat) - 48 = d" by simp
  from v assms show "\<not> isspace (char_of (48 + d))" by (auto simp: isspace_def)
  show "char_of (48 + d) \<noteq> CHR ''-''"
  proof
    assume "char_of (48 + d) = CHR ''-''"
    then have "(of_char (char_of (48 + d)) :: nat) = of_char (CHR ''-'')" by simp
    with v show False by simp
  qed
  show "char_of (48 + d) \<noteq> CHR ''+''"
  proof
    assume "char_of (48 + d) = CHR ''+''"
    then have "(of_char (char_of (48 + d)) :: nat) = of_char (CHR ''+'')" by simp
    with v show False by simp
  qed
qed

lemma digits_of_all_digits: "\<forall>c \<in> set (digits_of n). isdigit c"
proof (induction n rule: digits_of.induct)
  case (1 n)
  show ?case
  proof (cases "n < 10")
    case True
    then show ?thesis
      by (subst digits_of.simps) (simp add: digit_char_props)
  next
    case False
    have "n mod 10 < 10" by simp
    with False "1.IH" show ?thesis
      by (subst digits_of.simps) (simp add: digit_char_props)
  qed
qed

lemma digits_of_not_empty: "digits_of n \<noteq> []"
  by (subst digits_of.simps) simp

lemma dec_value_snoc: "dec_value (ds @ [c]) = 10 * dec_value ds + (of_char c - 48)"
  by (simp add: dec_value_def)

lemma dec_value_digits_of: "dec_value (digits_of n) = n"
proof (induction n rule: digits_of.induct)
  case (1 n)
  show ?case
  proof (cases "n < 10")
    case True
    then show ?thesis
      by (subst digits_of.simps) (simp add: dec_value_def digit_char_props)
  next
    case False
    have "n mod 10 < 10" by simp
    from digit_char_props(2) [OF this] False "1.IH" show ?thesis
      by (subst digits_of.simps) (simp add: dec_value_snoc)
  qed
qed

lemma digits_of_head:
  "\<exists>c cs. digits_of n = c # cs \<and> isdigit c \<and> \<not> isspace c \<and> c \<noteq> CHR ''-'' \<and> c \<noteq> CHR ''+''"
proof (induction n rule: digits_of.induct)
  case (1 n)
  show ?case
  proof (cases "n < 10")
    case True
    then show ?thesis
      by (subst digits_of.simps) (simp add: digit_char_props)
  next
    case False
    with "1.IH" obtain c cs where "digits_of (n div 10) = c # cs" "isdigit c" "\<not> isspace c"
      "c \<noteq> CHR ''-''" "c \<noteq> CHR ''+''" by blast
    with False show ?thesis
      by (subst digits_of.simps) simp
  qed
qed

lemma newline_props: "\<not> isdigit (CHR 0x0A)" "isspace (CHR 0x0A)"
  by (simp_all add: isdigit_def isspace_def)

lemma minus_props: "\<not> isspace (CHR ''-'')" "\<not> isdigit (CHR ''-'')"
  by (simp_all add: isdigit_def isspace_def)

lemma takeWhile_digits:
  "takeWhile isdigit (digits_of n @ CHR 0x0A # rest) = digits_of n"
  "dropWhile isdigit (digits_of n @ CHR 0x0A # rest) = CHR 0x0A # rest"
  using digits_of_all_digits [of n] by (simp_all add: takeWhile_append dropWhile_append newline_props)

lemma skip_space:
  assumes "\<forall>c \<in> set ws. isspace c" "\<not> isspace c"
  shows "dropWhile isspace (ws @ c # cs) = c # cs"
  using assms by (simp add: dropWhile_append)

lemma extract_signed_show_int:
  assumes ws: "\<forall>c \<in> set ws. isspace c" and lo: "lo \<le> v" and hi: "v \<le> hi"
  shows "extract_signed lo hi old \<lparr>chars = ws @ show_int v @ CHR 0x0A # rest, failed = False\<rparr>
       = (v, \<lparr>chars = CHR 0x0A # rest, failed = False\<rparr>)"
proof (cases "v < 0")
  case True
  let ?ds = "digits_of (nat (- v))"
  have sh: "show_int v = CHR ''-'' # ?ds" using True by (simp add: show_int_def)
  have sk: "dropWhile isspace (ws @ show_int v @ CHR 0x0A # rest) = CHR ''-'' # ?ds @ CHR 0x0A # rest"
    unfolding sh using skip_space [OF ws minus_props(1)] by simp
  have val: "- int (dec_value ?ds) = v"
    using True by (simp add: dec_value_digits_of)
  show ?thesis
    using lo hi val digits_of_not_empty [of "nat (- v)"]
    by (simp add: extract_signed_def sk takeWhile_digits Let_def)
next
  case False
  let ?ds = "digits_of (nat v)"
  have sh: "show_int v = ?ds" using False by (simp add: show_int_def)
  from digits_of_head [of "nat v"] obtain c cs where
    c: "?ds = c # cs" "isdigit c" "\<not> isspace c" "c \<noteq> CHR ''-''" "c \<noteq> CHR ''+''"
    by blast
  have sk: "dropWhile isspace (ws @ show_int v @ CHR 0x0A # rest) = c # cs @ CHR 0x0A # rest"
    unfolding sh c(1) using skip_space [OF ws c(3)] by simp
  have tk: "takeWhile isdigit (c # cs @ CHR 0x0A # rest) = c # cs"
    "dropWhile isdigit (c # cs @ CHR 0x0A # rest) = CHR 0x0A # rest"
    using takeWhile_digits [of "nat v" rest] unfolding c(1) by simp_all
  have val: "int (dec_value (c # cs)) = v"
    using False dec_value_digits_of [of "nat v"] unfolding c(1) by simp
  show ?thesis
    using lo hi val c(4,5) tk
    by (simp add: extract_signed_def sk Let_def)
qed

lemma extract_size_t_show_int:
  assumes ws: "\<forall>c \<in> set ws. isspace c" and hi: "n < 2 ^ 64"
  shows "extract_size_t old \<lparr>chars = ws @ show_int (int n) @ CHR 0x0A # rest, failed = False\<rparr>
       = (n, \<lparr>chars = CHR 0x0A # rest, failed = False\<rparr>)"
proof -
  let ?ds = "digits_of n"
  have sh: "show_int (int n) = ?ds" by (simp add: show_int_def)
  from digits_of_head [of n] obtain c cs where
    c: "?ds = c # cs" "isdigit c" "\<not> isspace c" "c \<noteq> CHR ''-''" "c \<noteq> CHR ''+''"
    by blast
  have sk: "dropWhile isspace (ws @ show_int (int n) @ CHR 0x0A # rest) = c # cs @ CHR 0x0A # rest"
    unfolding sh c(1) using skip_space [OF ws c(3)] by simp
  have tk: "takeWhile isdigit (c # cs @ CHR 0x0A # rest) = c # cs"
    "dropWhile isdigit (c # cs @ CHR 0x0A # rest) = CHR 0x0A # rest"
    using takeWhile_digits [of n rest] unfolding c(1) by simp_all
  have val: "dec_value (c # cs) = n"
    using dec_value_digits_of [of n] unfolding c(1) by simp
  have nhi: "\<not> 2 ^ 64 \<le> n" using hi by (simp only: not_le)
  show ?thesis
    using nhi c(4,5)
    by (simp only: extract_size_t_def sk Let_def tk val istream.simps list.simps if_False
        simp_thms istream.update_convs)
qed

lemma sint_of_int_32:
  assumes "- (2 ^ 31) \<le> v" "v < 2 ^ 31"
  shows "sint (of_int v :: 32 word) = v"
proof -
  have "sint (word_of_int v :: 32 word) = (v + 2 ^ 31) mod 2 ^ 32 - 2 ^ 31"
    by (simp only: int_word_sint) simp
  moreover have "(v + 2 ^ 31) mod 2 ^ 32 = v + 2 ^ 31"
    using assms by (intro mod_pos_pos_trivial) simp_all
  ultimately show ?thesis by simp
qed

lemma text_in_int_round_trip:
  assumes "\<forall>c \<in> set ws. isspace c"
  shows "text_in_int i0 \<lparr>chars = ws @ text_out_int i [] @ rest, failed = False\<rparr>
       = (i, \<lparr>chars = CHR 0x0A # rest, failed = False\<rparr>)"
proof -
  have "- (2 ^ 31) \<le> sint i" "sint i \<le> 2 ^ 31 - 1"
    using sint_ge [of i] sint_lt [of i] by simp_all
  from extract_signed_show_int [OF assms this] show ?thesis
    by (simp add: text_in_int_def text_out_int_def)
qed

lemma text_in_short_round_trip:
  assumes "\<forall>c \<in> set ws. isspace c"
  shows "text_in_short i0 \<lparr>chars = ws @ text_out_short i [] @ rest, failed = False\<rparr>
       = (i, \<lparr>chars = CHR 0x0A # rest, failed = False\<rparr>)"
proof -
  have "- (2 ^ 15) \<le> sint i" "sint i \<le> 2 ^ 15 - 1"
    using sint_ge [of i] sint_lt [of i] by simp_all
  from extract_signed_show_int [OF assms this] show ?thesis
    by (simp add: text_in_short_def text_out_short_def)
qed

lemma text_in_long_round_trip:
  assumes "\<forall>c \<in> set ws. isspace c"
  shows "text_in_long i0 \<lparr>chars = ws @ text_out_long i [] @ rest, failed = False\<rparr>
       = (i, \<lparr>chars = CHR 0x0A # rest, failed = False\<rparr>)"
proof -
  have "- (2 ^ 63) \<le> sint i" "sint i \<le> 2 ^ 63 - 1"
    using sint_ge [of i] sint_lt [of i] by simp_all
  from extract_signed_show_int [OF assms this] show ?thesis
    by (simp add: text_in_long_def text_out_long_def)
qed

lemma text_in_size_t_round_trip:
  assumes "\<forall>c \<in> set ws. isspace c"
  shows "text_in_size_t i0 \<lparr>chars = ws @ text_out_size_t i [] @ rest, failed = False\<rparr>
       = (i, \<lparr>chars = CHR 0x0A # rest, failed = False\<rparr>)"
proof -
  have "unat i < 2 ^ 64"
    using unsigned_less [of i, where ?'a = nat] by simp
  from extract_size_t_show_int [OF assms this] show ?thesis
    by (simp add: text_in_size_t_def text_out_size_t_def)
qed

lemma text_in_uchar_round_trip:
  assumes "\<forall>c \<in> set ws. isspace c"
  shows "text_in_uchar i0 \<lparr>chars = ws @ text_out_uchar i [] @ rest, failed = False\<rparr>
       = (i, \<lparr>chars = CHR 0x0A # rest, failed = False\<rparr>)"
proof -
  have hi: "uint i < 2 ^ 8" using uint_lt2p [of i] by simp
  have "(0 :: int) \<le> uint i" by simp
  then have "- (2 ^ 31) \<le> uint i" by (rule order_trans [rotated]) simp
  moreover from hi have "uint i \<le> 2 ^ 31 - 1" by simp
  ultimately have "- (2 ^ 31) \<le> uint i" "uint i \<le> 2 ^ 31 - 1" .
  from extract_signed_show_int [OF assms this] show ?thesis
    by (simp add: text_in_uchar_def text_out_uchar_def)
qed

lemma text_in_bool_round_trip:
  assumes "\<forall>c \<in> set ws. isspace c"
  shows "text_in_bool c0 \<lparr>chars = ws @ text_out_bool b [] @ rest, failed = False\<rparr>
       = (b, \<lparr>chars = CHR 0x0A # rest, failed = False\<rparr>)"
proof -
  have ns: "\<not> isspace (CHR ''t'')" "\<not> isspace (CHR ''f'')"
    by (simp_all add: isspace_def)
  show ?thesis
    by (cases b)
      (simp_all add: text_in_bool_def text_out_bool_def extract_char_def
        skip_space [OF assms ns(1)] skip_space [OF assms ns(2)])
qed

lemma text_out_string_eq:
  assumes "length str < 2 ^ 31"
  shows "text_out_string str os
       = os @ show_int (int (length str)) @ CHR 0x0A # (if str = [] then [] else str @ [CHR 0x0A])"
proof (cases "str = []")
  case True
  then show ?thesis by (simp add: text_out_string_def)
next
  case False
  then have "length str \<noteq> 0" by simp
  with of_nat_32_eq_0 [OF small_length(1) [OF assms]]
  have nz: "(of_nat (length str) :: 32 word) \<noteq> 0" by simp
  with False sint_of_nat_32 [OF assms] show ?thesis
    by (simp add: text_out_string_def Let_def)
qed

lemma text_in_string_prefix:
  assumes ws: "\<forall>c \<in> set ws. isspace c" and n: "n < 2 ^ 31"
  shows "text_in_int len0 \<lparr>chars = ws @ show_int (int n) @ CHR 0x0A # body, failed = False\<rparr>
       = (of_nat n, \<lparr>chars = CHR 0x0A # body, failed = False\<rparr>)"
proof -
  from n have "int n < 2 ^ 31"
    by (metis of_nat_less_iff of_nat_numeral of_nat_power)
  then have "- (2 ^ 31) \<le> int n" "int n \<le> 2 ^ 31 - 1" by simp_all
  from extract_signed_show_int [OF ws this] show ?thesis
    by (simp add: text_in_int_def)
qed

lemma text_in_string_body:
  assumes ws: "\<forall>c \<in> set ws. isspace c" and n: "Suc n < 2 ^ 31" and mx: "n \<le> max_size"
    and nz: "n \<noteq> 0"
  shows "text_in_string max_size len0 str0
           \<lparr>chars = ws @ show_int (int n) @ CHR 0x0A # body, failed = False\<rparr>
       = (case istream_get (int n + 1) (take n str0 @ replicate (n - length str0) (CHR 0x00))
                 \<lparr>chars = body, failed = False\<rparr> of
            (str2, s3) \<Rightarrow> (Inr str2, s3))"
proof -
  from n have n31: "n < 2 ^ 31" by (rule Suc_lessD)
  let ?len = "of_nat n :: 32 word"
  have sz: "size_t_of_int (sint ?len) = n"
    using sint_of_nat_32 [OF n31] size_t_of_length [OF small_length(2) [OF n31]] by simp
  have rs: "string_resize max_size n str0
      = Inr (take n str0 @ replicate (n - length str0) (CHR 0x00))"
    using mx by (simp add: string_resize_def)
  from nz of_nat_32_eq_0 [OF small_length(1) [OF n31]] have lnz: "?len \<noteq> 0" by simp
  show ?thesis
    using lnz
    by (simp add: text_in_string_def text_in_string_prefix [OF ws n31] istream_get_char_def
        sz rs sint_succ_32 [OF n] Let_def)
qed

lemma text_in_string_empty:
  assumes ws: "\<forall>c \<in> set ws. isspace c"
  shows "text_in_string max_size len0 str0
           \<lparr>chars = ws @ show_int 0 @ CHR 0x0A # body, failed = False\<rparr>
       = (Inr [], \<lparr>chars = body, failed = False\<rparr>)"
proof -
  have "text_in_int len0 \<lparr>chars = ws @ show_int (int 0) @ CHR 0x0A # body, failed = False\<rparr>
       = (of_nat 0, \<lparr>chars = CHR 0x0A # body, failed = False\<rparr>)"
    by (rule text_in_string_prefix [OF ws]) simp
  then show ?thesis
    by (simp add: text_in_string_def istream_get_char_def size_t_of_int_def string_resize_def)
qed

lemma istream_get_whole:
  assumes "CHR 0x00 \<notin> set str" "length dest = length str" "str \<noteq> []"
  shows "istream_get (int (length str) + 1) dest \<lparr>chars = str @ rest, failed = False\<rparr>
       = (str, \<lparr>chars = rest, failed = False\<rparr>)"
proof -
  have tw: "takeWhile (\<lambda>c. c \<noteq> CHR 0x00) str = str"
    using assms(1) by (intro takeWhile_eq_all_conv [THEN iffD2]) auto
  from assms(2,3) show ?thesis
    by (simp add: istream_get_def Let_def tw)
qed

lemma text_in_string_round_trip:
  assumes ws: "\<forall>c \<in> set ws. isspace c" and n: "Suc (length str) < 2 ^ 31"
    and mx: "length str \<le> max_size" and nul: "CHR 0x00 \<notin> set str"
  shows "text_in_string max_size len0 str0
           \<lparr>chars = ws @ text_out_string str [] @ rest, failed = False\<rparr>
       = (Inr str, \<lparr>chars = (if str = [] then rest else CHR 0x0A # rest), failed = False\<rparr>)"
proof (cases "str = []")
  case True
  with text_in_string_empty [OF ws, of max_size len0 str0 rest] show ?thesis
    by (simp add: text_out_string_def)
next
  case False
  from n have n31: "length str < 2 ^ 31" by (rule Suc_lessD)
  from False have nz: "length str \<noteq> 0" by simp
  let ?dest = "take (length str) str0 @ replicate (length str - length str0) (CHR 0x00)"
  have "length ?dest = length str" by simp
  from istream_get_whole [OF nul this False, of "CHR 0x0A # rest"]
    text_in_string_body [OF ws n mx nz, of len0 str0 "str @ CHR 0x0A # rest"] False
  show ?thesis
    by (simp add: text_out_string_eq [OF n31])
qed

lemma text_in_string_negative:
  assumes ws: "\<forall>c \<in> set ws. isspace c" and neg: "v < 0" and lo: "- (2 ^ 31) \<le> v"
    and mx: "max_size < 2 ^ 64 - 2 ^ 31"
  shows "text_in_string max_size len0 str0
           \<lparr>chars = ws @ show_int v @ CHR 0x0A # rest, failed = False\<rparr>
       = (Inl LengthError, \<lparr>chars = rest, failed = False\<rparr>)"
proof -
  from neg lo have r: "- (2 ^ 31) \<le> v" "v \<le> 2 ^ 31 - 1" "v < 2 ^ 31" by simp_all
  have si: "sint (of_int v :: 32 word) = v" by (rule sint_of_int_32 [OF r(1,3)])
  then have "sint (of_int v :: 32 word) < 0" using neg by simp
  from resize_negative [OF this mx] have rs:
    "string_resize max_size (size_t_of_int (sint (of_int v :: 32 word))) str0 = Inl LengthError" .
  from extract_signed_show_int [OF ws r(1,2)] rs show ?thesis
    by (simp add: text_in_string_def text_in_int_def istream_get_char_def)
qed

lemma text_in_string_malformed:
  assumes ws: "\<forall>c \<in> set ws. isspace c" and c: "\<not> isspace c" "\<not> isdigit c"
    "c \<noteq> CHR ''-''" "c \<noteq> CHR ''+''"
  shows "text_in_string max_size len0 str0 \<lparr>chars = ws @ c # rest, failed = False\<rparr>
       = (Inr [], \<lparr>chars = c # rest, failed = True\<rparr>)"
  using c
  by (simp add: text_in_string_def text_in_int_def extract_signed_def skip_space [OF ws c(1)]
      istream_get_char_def size_t_of_int_def string_resize_def Let_def)

lemma binary_scalar_round_trip:
  assumes "same_kind old x"
  shows "\<exists>a1 a2. binary_out_scalar x (binary_out_init []) = Inr a1 \<and> FlushBuffer a1 = Inr a2
      \<and> Read old (istream_init (ostream a2 @ rest)) = (x, istream_init rest)"
proof -
  from binary_out_scalar_flushed [OF buffer_ok_init, of x "[]"] obtain a1 a2 where
    a: "binary_out_scalar x (binary_out_init []) = Inr a1" "FlushBuffer a1 = Inr a2"
       "ostream a2 = object_repr x"
    by (auto simp: written_init)
  from Read_round_trip [OF assms, of rest] a show ?thesis
    by (simp add: istream_init_def)
qed

lemma binary_string_round_trip:
  assumes "length str < 2 ^ 31" "length str \<le> max_size"
  shows "\<exists>a1. binary_out_string str (binary_out_init []) = Inr a1
      \<and> binary_in_string max_size len0 str0 (istream_init (ostream a1 @ rest))
          = (Inr str, istream_init rest)"
proof -
  from binary_out_string_flushed [OF buffer_ok_init assms(1), of "[]"] obtain a1 where
    a: "binary_out_string str (binary_out_init []) = Inr a1"
       "ostream a1 = le_bytes 4 (length str) @ str"
    by (auto simp: written_init)
  from binary_in_string_round_trip [OF assms, of len0 str0 rest] a show ?thesis
    by (simp add: istream_init_def del: le_bytes.simps)
qed

text \<open>
  Claim C3 says that every primitive value is read back exactly by the matching codec.
  A string is a primitive kind. The text writer puts out the \<open>len\<close> characters of a
  string with \<^verbatim>\<open>stream->write(&str[0], len)\<close>, and the binary reader takes \<open>len\<close>
  characters with \<^verbatim>\<open>stream->read(&str[0], len)\<close>; the text reader takes them with
  \<^verbatim>\<open>stream->get(&str[0], len+1, '\0')\<close>, which stops in front of a NUL. The string
  \<open>a\<close>, NUL, \<open>b\<close> written by the text codec comes back as \<open>a\<close>, NUL, NUL, and the
  characters from the NUL on are left in the stream for the reads that follow. The
  binary codec gives the same string back, and leaves the stream behind it.
\<close>

theorem text_string_with_nul_not_restored:
  "text_in_string 1000 0 []
       (istream_init (text_out_string [CHR ''a'', CHR 0x00, CHR ''b''] [] @ ''rest''))
     = (Inr [CHR ''a'', CHR 0x00, CHR 0x00],
        \<lparr>chars = [CHR 0x00, CHR ''b'', CHR 0x0A] @ ''rest'', failed = False\<rparr>)
   \<and> (\<exists>a1. binary_out_string [CHR ''a'', CHR 0x00, CHR ''b''] (binary_out_init []) = Inr a1
        \<and> binary_in_string 1000 0 [] (istream_init (ostream a1 @ ''rest''))
            = (Inr [CHR ''a'', CHR 0x00, CHR ''b''], istream_init ''rest''))"
proof -
  let ?str = "[CHR ''a'', CHR 0x00, CHR ''b'']"
  have out: "text_out_string ?str [] = [] @ show_int (int 3) @ CHR 0x0A # ?str @ [CHR 0x0A]"
    using text_out_string_eq [of ?str "[]"] by simp
  have "text_in_string 1000 0 []
          \<lparr>chars = [] @ show_int (int 3) @ CHR 0x0A # ?str @ [CHR 0x0A] @ ''rest'', failed = False\<rparr>
      = (case istream_get (int 3 + 1) (take 3 [] @ replicate (3 - length ([] :: string)) (CHR 0x00))
                 \<lparr>chars = ?str @ [CHR 0x0A] @ ''rest'', failed = False\<rparr> of
            (str2, s3) \<Rightarrow> (Inr str2, s3))"
    by (rule text_in_string_body) simp_all
  then have rd: "text_in_string 1000 0 [] (istream_init (text_out_string ?str [] @ ''rest''))
     = (Inr [CHR ''a'', CHR 0x00, CHR 0x00],
        \<lparr>chars = [CHR 0x00, CHR ''b'', CHR 0x0A] @ ''rest'', failed = False\<rparr>)"
    unfolding out istream_init_def
    by (simp add: istream_get_def Let_def numeral_eq_Suc)
  have "length ?str < 2 ^ 31" "length ?str \<le> (1000 :: nat)"
    by simp_all
  then have "\<exists>a1. binary_out_string ?str (binary_out_init []) = Inr a1
        \<and> binary_in_string 1000 0 [] (istream_init (ostream a1 @ ''rest''))
            = (Inr ?str, istream_init ''rest'')"
    by (rule binary_string_round_trip)
  with rd show ?thesis by blast
qed

text \<open>
  What the two codecs do read back exactly. Through the binary codec every scalar, a
  double bit for bit (it is its 64-bit pattern here), and every string shorter than
  \<open>2 ^ 31\<close>. Through the text codec every \<^verbatim>\<open>int\<close>, \<^verbatim>\<open>short\<close>, \<^verbatim>\<open>long\<close>,
  \<^verbatim>\<open>size_t\<close>, \<^verbatim>\<open>unsigned char\<close> and \<^verbatim>\<open>bool\<close>, after any white space left by
  the value before it, and every string that holds no NUL character. The text operators
  for \<^verbatim>\<open>double\<close> are the floating-point formatting and parsing of the standard
  library and are not part of this development.
\<close>

lemma primitive_round_trip:
  "(same_kind old x \<longrightarrow>
      (\<exists>a1 a2. binary_out_scalar x (binary_out_init []) = Inr a1 \<and> FlushBuffer a1 = Inr a2
         \<and> Read old (istream_init (ostream a2 @ rest)) = (x, istream_init rest)))
   \<and> (\<exists>a1 a2. binary_out_scalar (Double_val d) (binary_out_init []) = Inr a1
         \<and> FlushBuffer a1 = Inr a2
         \<and> Read (Double_val d0) (istream_init (ostream a2 @ rest))
             = (Double_val d, istream_init rest))
   \<and> (length str < 2 ^ 31 \<and> length str \<le> max_size \<longrightarrow>
      (\<exists>a1. binary_out_string str (binary_out_init []) = Inr a1
         \<and> binary_in_string max_size len0 str0 (istream_init (ostream a1 @ rest))
             = (Inr str, istream_init rest)))
   \<and> ((\<forall>c \<in> set ws. isspace c) \<longrightarrow>
        text_in_int i0 (istream_init (ws @ text_out_int i [] @ rest))
          = (i, istream_init (CHR 0x0A # rest))
      \<and> text_in_short h0 (istream_init (ws @ text_out_short h [] @ rest))
          = (h, istream_init (CHR 0x0A # rest))
      \<and> text_in_long l0 (istream_init (ws @ text_out_long l [] @ rest))
          = (l, istream_init (CHR 0x0A # rest))
      \<and> text_in_size_t z0 (istream_init (ws @ text_out_size_t z [] @ rest))
          = (z, istream_init (CHR 0x0A # rest))
      \<and> text_in_uchar u0 (istream_init (ws @ text_out_uchar u [] @ rest))
          = (u, istream_init (CHR 0x0A # rest))
      \<and> text_in_bool c0 (istream_init (ws @ text_out_bool b [] @ rest))
          = (b, istream_init (CHR 0x0A # rest))
      \<and> (Suc (length tstr) < 2 ^ 31 \<and> length tstr \<le> max_size \<and> CHR 0x00 \<notin> set tstr \<longrightarrow>
           text_in_string max_size len0 str0 (istream_init (ws @ text_out_string tstr [] @ rest))
             = (Inr tstr, istream_init (if tstr = [] then rest else CHR 0x0A # rest))))"
proof (intro conjI impI)
  assume "same_kind old x"
  then show "\<exists>a1 a2. binary_out_scalar x (binary_out_init []) = Inr a1 \<and> FlushBuffer a1 = Inr a2
         \<and> Read old (istream_init (ostream a2 @ rest)) = (x, istream_init rest)"
    by (rule binary_scalar_round_trip)
next
  show "\<exists>a1 a2. binary_out_scalar (Double_val d) (binary_out_init []) = Inr a1
         \<and> FlushBuffer a1 = Inr a2
         \<and> Read (Double_val d0) (istream_init (ostream a2 @ rest))
             = (Double_val d, istream_init rest)"
    by (rule binary_scalar_round_trip) simp
next
  assume "length str < 2 ^ 31 \<and> length str \<le> max_size"
  then show "\<exists>a1. binary_out_string str (binary_out_init []) = Inr a1
         \<and> binary_in_string max_size len0 str0 (istream_init (ostream a1 @ rest))
             = (Inr str, istream_init rest)"
    using binary_string_round_trip [of str max_size len0 str0 rest] by blast
next
  assume ws: "\<forall>c \<in> set ws. isspace c"
  show "text_in_int i0 (istream_init (ws @ text_out_int i [] @ rest))
          = (i, istream_init (CHR 0x0A # rest))"
    unfolding istream_init_def by (rule text_in_int_round_trip [OF ws])
  show "text_in_short h0 (istream_init (ws @ text_out_short h [] @ rest))
          = (h, istream_init (CHR 0x0A # rest))"
    unfolding istream_init_def by (rule text_in_short_round_trip [OF ws])
  show "text_in_long l0 (istream_init (ws @ text_out_long l [] @ rest))
          = (l, istream_init (CHR 0x0A # rest))"
    unfolding istream_init_def by (rule text_in_long_round_trip [OF ws])
  show "text_in_size_t z0 (istream_init (ws @ text_out_size_t z [] @ rest))
          = (z, istream_init (CHR 0x0A # rest))"
    unfolding istream_init_def by (rule text_in_size_t_round_trip [OF ws])
  show "text_in_uchar u0 (istream_init (ws @ text_out_uchar u [] @ rest))
          = (u, istream_init (CHR 0x0A # rest))"
    unfolding istream_init_def by (rule text_in_uchar_round_trip [OF ws])
  show "text_in_bool c0 (istream_init (ws @ text_out_bool b [] @ rest))
          = (b, istream_init (CHR 0x0A # rest))"
    unfolding istream_init_def by (rule text_in_bool_round_trip [OF ws])
  assume "Suc (length tstr) < 2 ^ 31 \<and> length tstr \<le> max_size \<and> CHR 0x00 \<notin> set tstr"
  then show "text_in_string max_size len0 str0 (istream_init (ws @ text_out_string tstr [] @ rest))
             = (Inr tstr, istream_init (if tstr = [] then rest else CHR 0x0A # rest))"
    unfolding istream_init_def
    using text_in_string_round_trip [OF ws, of tstr max_size len0 str0 rest] by blast
qed

lemma primitive_round_trip_example:
  "(\<exists>a1 a2. binary_out_scalar (Int_val (- 5)) (binary_out_init []) = Inr a1
        \<and> FlushBuffer a1 = Inr a2
        \<and> Read (Int_val 0) (istream_init (ostream a2 @ ''rest''))
            = (Int_val (- 5), istream_init ''rest''))
   \<and> (\<exists>a1. binary_out_string ''hi'' (binary_out_init []) = Inr a1
        \<and> binary_in_string 9223372036854775807 0 ''old'' (istream_init (ostream a1 @ ''rest''))
            = (Inr ''hi'', istream_init ''rest''))
   \<and> text_in_int 0 (istream_init ([CHR 0x0A] @ text_out_int (- 77) [] @ ''rest''))
        = (- 77, istream_init (CHR 0x0A # ''rest''))
   \<and> text_in_bool (CHR ''x'') (istream_init ([CHR 0x0A] @ text_out_bool True [] @ ''rest''))
        = (True, istream_init (CHR 0x0A # ''rest''))
   \<and> text_in_string 9223372036854775807 0 ''old''
          (istream_init ([CHR 0x0A] @ text_out_string ''two words'' [] @ ''rest''))
        = (Inr ''two words'',
           istream_init (if ''two words'' = [] then ''rest'' else CHR 0x0A # ''rest''))"
proof -
  have h1: "same_kind (Int_val 0) (Int_val (- 5))" by simp
  have h2: "length ''hi'' < 2 ^ 31 \<and> length ''hi'' \<le> (9223372036854775807 :: nat)" by simp
  have h3: "\<forall>c \<in> set [CHR 0x0A]. isspace c" by (simp add: isspace_def)
  have h4: "Suc (length ''two words'') < 2 ^ 31
      \<and> length ''two words'' \<le> (9223372036854775807 :: nat)
      \<and> CHR 0x00 \<notin> set ''two words''" by simp
  note inst = primitive_round_trip [where old = "Int_val 0" and x = "Int_val (- 5)"
      and rest = "''rest''" and d = 0 and ?d0.0 = 0 and str = "''hi''"
      and max_size = 9223372036854775807 and ?len0.0 = 0 and ?str0.0 = "''old''"
      and ws = "[CHR 0x0A]" and ?i0.0 = 0 and i = "- 77" and ?h0.0 = 0 and h = 0
      and ?l0.0 = 0 and l = 0 and ?z0.0 = 0 and z = 0 and ?u0.0 = 0 and u = 0
      and ?c0.0 = "CHR ''x''" and b = True and tstr = "''two words''"]
  from inst h1 h2 h3 h4 show ?thesis by blast
qed

text \<open>
  Claim C6 says that a malformed or negative length prefix of a string makes the read
  raise a decoding fault rather than proceed. The text reader given \<open>x\<close> where the length
  should be raises nothing: the extraction fails, the length is 0, and the read returns
  the empty string on a stream that has failed.
\<close>

theorem malformed_length_prefix_raises_nothing:
  "text_in_string 1000 0 ''old'' (istream_init ''x'') = (Inr [], \<lparr>chars = ''x'', failed = True\<rparr>)"
proof -
  have "text_in_string 1000 0 ''old'' \<lparr>chars = [] @ CHR ''x'' # [], failed = False\<rparr>
      = (Inr [], \<lparr>chars = CHR ''x'' # [], failed = True\<rparr>)"
    by (rule text_in_string_malformed) (simp_all add: isspace_def isdigit_def)
  then show ?thesis by (simp add: istream_init_def)
qed

text \<open>
  Claim C6, amended. The string readers do not check the length prefix. A negative
  length goes to \<^verbatim>\<open>resize\<close>, converted to \<^verbatim>\<open>size_t\<close>, and \<^verbatim>\<open>resize\<close> throws
  the length error of the standard library before a character of the string is read
  (for a \<^verbatim>\<open>max_size()\<close> below \<open>2 ^ 64 - 2 ^ 31\<close>), in the binary and in the text
  reader. A text length prefix that is not a number raises nothing: the stream fails
  and the string is returned empty.
\<close>

theorem string_length_prefix_not_checked:
  "(sint (len :: 32 word) < 0 \<and> max_size < 2 ^ 64 - 2 ^ 31 \<longrightarrow>
      binary_in_string max_size len0 str0 (istream_init (le_bytes 4 (unat len) @ rest))
        = (Inl LengthError, istream_init rest))
   \<and> ((\<forall>c \<in> set ws. isspace c) \<and> v < 0 \<and> - (2 ^ 31) \<le> v \<and> max_size < 2 ^ 64 - 2 ^ 31 \<longrightarrow>
      text_in_string max_size len0 str0 (istream_init (ws @ show_int v @ CHR 0x0A # rest))
        = (Inl LengthError, istream_init rest))
   \<and> ((\<forall>c \<in> set ws. isspace c) \<and> \<not> isspace c \<and> \<not> isdigit c \<and> c \<noteq> CHR ''-'' \<and> c \<noteq> CHR ''+'' \<longrightarrow>
      text_in_string max_size len0 str0 (istream_init (ws @ c # rest))
        = (Inr [], \<lparr>chars = c # rest, failed = True\<rparr>))"
proof (intro conjI impI)
  assume "sint (len :: 32 word) < 0 \<and> max_size < 2 ^ 64 - 2 ^ 31"
  then show "binary_in_string max_size len0 str0 (istream_init (le_bytes 4 (unat len) @ rest))
        = (Inl LengthError, istream_init rest)"
    unfolding istream_init_def
    using binary_in_string_negative [of len max_size len0 str0 rest] by blast
next
  assume "(\<forall>c \<in> set ws. isspace c) \<and> v < 0 \<and> - (2 ^ 31) \<le> v \<and> max_size < 2 ^ 64 - 2 ^ 31"
  then show "text_in_string max_size len0 str0 (istream_init (ws @ show_int v @ CHR 0x0A # rest))
        = (Inl LengthError, istream_init rest)"
    unfolding istream_init_def
    using text_in_string_negative [of ws v max_size len0 str0 rest] by blast
next
  assume "(\<forall>c \<in> set ws. isspace c) \<and> \<not> isspace c \<and> \<not> isdigit c \<and> c \<noteq> CHR ''-'' \<and> c \<noteq> CHR ''+''"
  then show "text_in_string max_size len0 str0 (istream_init (ws @ c # rest))
        = (Inr [], \<lparr>chars = c # rest, failed = True\<rparr>)"
    unfolding istream_init_def
    using text_in_string_malformed [of ws c max_size len0 str0 rest] by blast
qed


theorem string_length_prefix_not_checked_witness:
  "binary_in_string 9223372036854775807 0 ''old''
      (istream_init (le_bytes 4 (unat (- 1 :: 32 word)) @ ''rest''))
     = (Inl LengthError, istream_init ''rest'')
   \<and> text_in_string 9223372036854775807 0 ''old''
        (istream_init ([CHR 0x0A] @ show_int (- 3) @ CHR 0x0A # ''rest''))
     = (Inl LengthError, istream_init ''rest'')
   \<and> text_in_string 9223372036854775807 0 ''old'' (istream_init ([CHR 0x0A] @ CHR ''x'' # ''rest''))
     = (Inr [], \<lparr>chars = CHR ''x'' # ''rest'', failed = True\<rparr>)"
proof -
  have mx: "(9223372036854775807 :: nat) < 2 ^ 64 - 2 ^ 31" by simp
  have h1: "sint (- 1 :: 32 word) < 0" by simp
  have h2: "\<forall>c \<in> set [CHR 0x0A]. isspace c" by (simp add: isspace_def)
  have h3: "(- 3 :: int) < 0 \<and> - (2 ^ 31) \<le> (- 3 :: int)" by simp
  have h4: "\<not> isspace (CHR ''x'') \<and> \<not> isdigit (CHR ''x'') \<and> CHR ''x'' \<noteq> CHR ''-''
      \<and> CHR ''x'' \<noteq> CHR ''+''"
    by (simp add: isspace_def isdigit_def)
  note inst = string_length_prefix_not_checked [where len = "- 1"
      and max_size = 9223372036854775807 and ?len0.0 = 0 and ?str0.0 = "''old''"
      and rest = "''rest''" and ws = "[CHR 0x0A]" and v = "- 3" and c = "CHR ''x''"]
  from inst mx h1 h2 h3 h4 show ?thesis by blast
qed

end
